theory Spec2Isabelle
  imports Main "HOL-Library.AList" "HOL-Library.Multiset"
begin

section \<open>Strings\<close>

text \<open>
  A JavaScript string is modelled as a \<^typ>\<open>string\<close>: a list of code units, here
  those below 256, the code points U+0000 to U+00FF. On these, \<open>toLowerCase\<close> moves
  \<open>A\<close> to \<open>Z\<close> and U+00C0 to U+00DE (without the multiplication sign U+00D7) up by
  32, and \<open>toUpperCase\<close> moves \<open>a\<close> to \<open>z\<close> and U+00E0 to U+00FE (without the
  division sign U+00F7) down by 32 and turns the sharp s U+00DF into \<open>SS\<close>. The upper
  case of the micro sign U+00B5 and of U+00FF lies above 255: the model leaves these two
  as they are, standing for a code unit above 255. No test of an upper-cased string
  against ASCII text depends on which code unit that is; the one comparison with an
  arbitrary string, the operator filter's, is written with \<open>upper_in_range\<close>.
\<close>

definition toLowerChar :: "char \<Rightarrow> char" where
  "toLowerChar c =
     (let n = (of_char c :: nat)
      in if (65 \<le> n \<and> n \<le> 90) \<or> (192 \<le> n \<and> n \<le> 222 \<and> n \<noteq> 215)
         then char_of (n + 32) else c)"

definition toUpperUnits :: "char \<Rightarrow> string" where
  "toUpperUnits c =
     (let n = (of_char c :: nat)
      in if (97 \<le> n \<and> n \<le> 122) \<or> (224 \<le> n \<and> n \<le> 254 \<and> n \<noteq> 247)
         then [char_of (n - 32)]
         else if n = 223 then ''SS''
         else [c])"

definition toUpperCase :: "string \<Rightarrow> string" where
  "toUpperCase s = concat (map toUpperUnits s)"

definition toLowerCase :: "string \<Rightarrow> string" where
  "toLowerCase s = map toLowerChar s"

text \<open>No code unit of the string has its upper case above 255.\<close>

definition upper_in_range :: "string \<Rightarrow> bool" where
  "upper_in_range s = list_all (\<lambda>c. (of_char c :: nat) \<noteq> 181 \<and> (of_char c :: nat) \<noteq> 255) s"

text \<open>
  \<open>String.prototype.trim\<close> removes white space and line terminators at both ends;
  below 256 these are the code units 9 to 13, 32 and 160.
\<close>

definition is_space :: "char \<Rightarrow> bool" where
  "is_space c = (let n = (of_char c :: nat) in (9 \<le> n \<and> n \<le> 13) \<or> n = 32 \<or> n = 160)"

definition trim :: "string \<Rightarrow> string" where
  "trim s = rev (dropWhile is_space (rev (dropWhile is_space s)))"

definition startsWith :: "string \<Rightarrow> string \<Rightarrow> bool" where
  "startsWith s t = (take (length t) s = t)"

primrec includes_str :: "string \<Rightarrow> string \<Rightarrow> bool" where
  "includes_str [] t = (t = [])"
| "includes_str (c # cs) t = (startsWith (c # cs) t \<or> includes_str cs t)"

section \<open>Records and the verification predicate\<close>

text \<open>
  A QSO record is the object \<open>qso = {}\<close> filled by \<open>qso[fieldName] = value\<close>: an
  association list from field name to value, in insertion order. Reading a property is
  \<^const>\<open>map_of\<close>; \<open>None\<close> is JavaScript's \<open>undefined\<close>.
\<close>

type_synonym qso = "(string \<times> string) list"

text \<open>\<open>['Y', 'V'].includes(x?.toUpperCase())\<close> for a property \<open>x\<close> that may be undefined.\<close>

definition isYV :: "string option \<Rightarrow> bool" where
  "isYV x = (case x of None \<Rightarrow> False | Some v \<Rightarrow> toUpperCase v \<in> set [''Y'', ''V''])"

definition confirmFields :: "string list" where
  "confirmFields =
     [''LOTW_QSL_RCVD'', ''EQSL_QSL_RCVD'', ''QSL_RCVD'',
      ''QRZCOM_QSL_RCVD'', ''QRZ_QSL_RCVD'', ''QRZCOM_QSO_DOWNLOAD_STATUS'']"

definition isConfirmed :: "qso \<Rightarrow> bool" where
  "isConfirmed qso = list_ex (\<lambda>field. isYV (map_of qso field)) confirmFields"

section \<open>The entity lookup table\<close>

text \<open>
  \<open>lookupDXCC\<close> is imported from the module \<open>utils/dxccEntities\<close>, whose table is data
  outside the analyzer. It is a parameter of the model: a function from the identifier to
  an entry, or to nothing. The analyzer reads the properties \<open>name\<close>, \<open>cont\<close> and
  \<open>deleted\<close> of an entry.
\<close>

record dxcc_entity =
  entity_name :: string
  entity_cont :: string
  entity_deleted :: bool

type_synonym lookup_table = "string \<Rightarrow> dxcc_entity option"

section \<open>Aggregates\<close>

text \<open>A band status is \<open>null\<close>, \<open>'W'\<close> or \<open>'C'\<close>.\<close>

datatype band_status = Null | Worked | Confirmed

text \<open>The object literal \<open>{ lotw, eqsl, qrz, qsl }\<close>, of flags or of counts.\<close>

datatype 'a platforms = Platforms (p_lotw: 'a) (p_eqsl: 'a) (p_qrz: 'a) (p_qsl: 'a)

text \<open>
  One entry of \<open>dxccData\<close>. The objects keyed by band are association lists in
  insertion order. The field \<open>total\<close> of the source is \<open>total_n\<close> here.
\<close>

record aggregate =
  country :: string
  cont :: string
  deleted :: bool
  total_n :: nat
  lotw :: bool
  eqsl :: bool
  qrz :: bool
  qsl :: bool
  bands :: "(string \<times> band_status) list"
  bandQsos :: "(string \<times> nat) list"
  bandConfirmations :: "(string \<times> bool platforms) list"
  platformQsos :: "nat platforms"
  bandPlatformQsos :: "(string \<times> nat platforms) list"

type_synonym dxccData = "(string \<times> aggregate) list"

definition BANDS :: "string list" where
  "BANDS = [''160m'', ''80m'', ''40m'', ''30m'', ''20m'', ''17m'', ''15m'', ''12m'', ''10m'', ''6m'']"

text \<open>JavaScript truthiness of a string property: defined and not empty.\<close>

definition truthy :: "string option \<Rightarrow> bool" where
  "truthy x = (case x of None \<Rightarrow> False | Some s \<Rightarrow> s \<noteq> [])"

text \<open>\<open>a || b\<close> on properties that may be undefined, and \<open>a || 'literal'\<close>.\<close>

definition js_or :: "string option \<Rightarrow> string option \<Rightarrow> string option" where
  "js_or a b = (if truthy a then a else b)"

definition or_default :: "string option \<Rightarrow> string \<Rightarrow> string" where
  "or_default a d = (case a of None \<Rightarrow> d | Some s \<Rightarrow> if s = [] then d else s)"

definition resolve_country :: "lookup_table \<Rightarrow> string \<Rightarrow> qso \<Rightarrow> string" where
  "resolve_country lookupDXCC dxccId qso =
     or_default (js_or (map_of qso ''COUNTRY'') (map_option entity_name (lookupDXCC dxccId)))
       ''Unknown''"

definition resolve_continent :: "lookup_table \<Rightarrow> string \<Rightarrow> qso \<Rightarrow> string" where
  "resolve_continent lookupDXCC dxccId qso =
     or_default (js_or (map_of qso ''CONT'') (map_option entity_cont (lookupDXCC dxccId))) []"

definition resolve_deleted :: "lookup_table \<Rightarrow> string \<Rightarrow> bool" where
  "resolve_deleted lookupDXCC dxccId =
     (case lookupDXCC dxccId of None \<Rightarrow> False | Some e \<Rightarrow> entity_deleted e)"

text \<open>
  The entry created on the first sight of an identifier; \<open>BANDS.forEach\<close> fills the four
  objects keyed by band, in the order of \<^const>\<open>BANDS\<close>.
\<close>

definition new_entry :: "string \<Rightarrow> string \<Rightarrow> bool \<Rightarrow> aggregate" where
  "new_entry country' continent deleted' =
     \<lparr> country = country', cont = continent, deleted = deleted', total_n = 0,
       lotw = False, eqsl = False, qrz = False, qsl = False,
       bands = map (\<lambda>b. (b, Null)) BANDS,
       bandQsos = map (\<lambda>b. (b, 0)) BANDS,
       bandConfirmations = map (\<lambda>b. (b, Platforms False False False False)) BANDS,
       platformQsos = Platforms 0 0 0 0,
       bandPlatformQsos = map (\<lambda>b. (b, Platforms 0 0 0 0)) BANDS \<rparr>"

text \<open>
  The four tests \<open>isLotw\<close>, \<open>isEqsl\<close>, \<open>isQrz\<close>, \<open>isQsl\<close> of one record, kept together.
\<close>

definition platform_hits :: "qso \<Rightarrow> bool platforms" where
  "platform_hits qso =
     Platforms (isYV (map_of qso ''LOTW_QSL_RCVD''))
               (isYV (map_of qso ''EQSL_QSL_RCVD''))
               (list_ex (\<lambda>f. isYV (map_of qso f))
                  [''QRZCOM_QSL_RCVD'', ''QRZ_QSL_RCVD'', ''QRZCOM_QSO_DOWNLOAD_STATUS''])
               (isYV (map_of qso ''QSL_RCVD''))"

text \<open>\<open>if (isX) { o.x = true }\<close> and \<open>if (isX) { n.x++ }\<close> for the four platforms.\<close>

definition set_flags :: "bool platforms \<Rightarrow> bool platforms \<Rightarrow> bool platforms" where
  "set_flags hits bc =
     Platforms (if p_lotw hits then True else p_lotw bc) (if p_eqsl hits then True else p_eqsl bc)
               (if p_qrz hits then True else p_qrz bc) (if p_qsl hits then True else p_qsl bc)"

definition bump_counts :: "bool platforms \<Rightarrow> nat platforms \<Rightarrow> nat platforms" where
  "bump_counts hits n =
     Platforms (if p_lotw hits then p_lotw n + 1 else p_lotw n)
               (if p_eqsl hits then p_eqsl n + 1 else p_eqsl n)
               (if p_qrz hits then p_qrz n + 1 else p_qrz n)
               (if p_qsl hits then p_qsl n + 1 else p_qsl n)"

definition update_platforms :: "bool platforms \<Rightarrow> aggregate \<Rightarrow> aggregate" where
  "update_platforms hits a =
     a\<lparr> lotw := (if p_lotw hits then True else lotw a),
        eqsl := (if p_eqsl hits then True else eqsl a),
        qsl := (if p_qsl hits then True else qsl a),
        qrz := (if p_qrz hits then True else qrz a),
        platformQsos := bump_counts hits (platformQsos a) \<rparr>"

text \<open>
  The band part of the loop body. \<open>normalizedBand\<close> is one of \<^const>\<open>BANDS\<close> there, a
  key that \<^const>\<open>new_entry\<close> has created, so the increments find their key.
  \<open>!currentStatus\<close> holds for \<open>null\<close> (and for an undefined property).
\<close>

definition update_band :: "string option \<Rightarrow> bool \<Rightarrow> bool platforms \<Rightarrow> aggregate \<Rightarrow> aggregate" where
  "update_band band confirmed hits a =
     (case band of
        None \<Rightarrow> a
      | Some bnd \<Rightarrow>
          if bnd \<noteq> [] \<and> toLowerCase bnd \<in> set BANDS then
            let normalizedBand = toLowerCase bnd;
                currentStatus = map_of (bands a) normalizedBand;
                a1 = a\<lparr> bandQsos := AList.map_entry normalizedBand Suc (bandQsos a) \<rparr>;
                a2 = (if confirmed then
                        a1\<lparr> bands := AList.update normalizedBand Confirmed (bands a1) \<rparr>
                      else if currentStatus = None \<or> currentStatus = Some Null then
                        a1\<lparr> bands := AList.update normalizedBand Worked (bands a1) \<rparr>
                      else a1)
            in a2\<lparr> bandConfirmations :=
                      AList.map_entry normalizedBand (set_flags hits) (bandConfirmations a2),
                    bandPlatformQsos :=
                      AList.map_entry normalizedBand (bump_counts hits) (bandPlatformQsos a2) \<rparr>
          else a)"

text \<open>
  What the loop body does to the entry \<open>dxccData[dxccId]\<close> once it exists: the count,
  the platform flags and counts, then the band.
\<close>

definition fold_into :: "qso \<Rightarrow> aggregate \<Rightarrow> aggregate" where
  "fold_into qso a =
     (let band = map_of qso ''BAND'';
          confirmed = isConfirmed qso;
          a1 = a\<lparr> total_n := total_n a + 1 \<rparr>;
          hits = platform_hits qso;
          a2 = update_platforms hits a1
      in update_band band confirmed hits a2)"

text \<open>
  \<open>dxccData\<close> is the object literal \<open>{}\<close>: reading \<open>dxccData[dxccId]\<close> finds the
  entry stored under the identifier, or else the property of that name that every object
  inherits from \<open>Object.prototype\<close>, or else \<open>undefined\<close>. The inherited properties
  are functions, and \<open>__proto__\<close> is the prototype object itself: all of them truthy,
  none with a property \<open>platformQsos\<close> or \<open>bands\<close>.
\<close>

definition inherited_names :: "string list" where
  "inherited_names =
     [''constructor'', ''__defineGetter__'', ''__defineSetter__'', ''hasOwnProperty'',
      ''__lookupGetter__'', ''__lookupSetter__'', ''isPrototypeOf'',
      ''propertyIsEnumerable'', ''toString'', ''valueOf'', ''__proto__'', ''toLocaleString'']"

datatype js_error = TypeError

text \<open>The test \<open>band && BANDS.includes(band.toLowerCase())\<close>.\<close>

definition recognized_band :: "string option \<Rightarrow> bool" where
  "recognized_band band =
     (case band of None \<Rightarrow> False | Some bnd \<Rightarrow> bnd \<noteq> [] \<and> toLowerCase bnd \<in> set BANDS)"

text \<open>
  The loop body from \<open>if (!dxccData[dxccId])\<close> on, when the identifier has an entry
  or names no inherited property: an entry of \<open>dxccData\<close> is an object, hence truthy,
  so the test asks whether the entry is absent.
\<close>

definition add_entry :: "lookup_table \<Rightarrow> dxccData \<Rightarrow> string \<Rightarrow> qso \<Rightarrow> dxccData" where
  "add_entry lookupDXCC dxccData dxccId qso =
     (let country' = resolve_country lookupDXCC dxccId qso;
          continent = resolve_continent lookupDXCC dxccId qso;
          deleted' = resolve_deleted lookupDXCC dxccId;
          d1 = (if map_of dxccData dxccId = None
                then AList.update dxccId (new_entry country' continent deleted') dxccData
                else dxccData)
      in AList.map_entry dxccId (fold_into qso) d1)"

text \<open>
  The body of \<open>filteredQsos.forEach\<close>: one record folded into \<open>dxccData\<close>. When the
  identifier has no entry and names an inherited property, \<open>dxccData[dxccId]\<close> is that
  inherited value: no entry is created and \<open>total++\<close> stores \<open>NaN\<close> as a property of
  the inherited value, which is falsy and changes no later test. Then a platform test
  that holds reads
  \<open>dxccData[dxccId].platformQsos.lotw\<close> (or its like), and a recognized band reads
  \<open>dxccData[dxccId].bands[normalizedBand]\<close>: a property of \<open>undefined\<close>, which raises
  \<open>TypeError\<close>. The flag that the same statement sets on the inherited value before
  it raises is not part of the model.
\<close>

definition add_qso :: "lookup_table \<Rightarrow> dxccData \<Rightarrow> qso \<Rightarrow> js_error + dxccData" where
  "add_qso lookupDXCC dxccData qso =
     (case map_of qso ''DXCC'' of
        None \<Rightarrow> Inr dxccData
      | Some dxccId \<Rightarrow>
          if dxccId = [] then Inr dxccData
          else if map_of dxccData dxccId = None \<and> dxccId \<in> set inherited_names
          then
            let hits = platform_hits qso
            in if p_lotw hits \<or> p_eqsl hits \<or> p_qsl hits \<or> p_qrz hits then Inl TypeError
               else if recognized_band (map_of qso ''BAND'') then Inl TypeError
               else Inr dxccData
          else Inr (add_entry lookupDXCC dxccData dxccId qso))"

text \<open>
  \<open>filteredQsos.forEach\<close>: the records are folded in order, and an exception ends the
  loop and the call.
\<close>

fun fold_qsos :: "lookup_table \<Rightarrow> dxccData \<Rightarrow> qso list \<Rightarrow> js_error + dxccData" where
  "fold_qsos lookupDXCC dxccData [] = Inr dxccData"
| "fold_qsos lookupDXCC dxccData (qso # qsos) =
     (case add_qso lookupDXCC dxccData qso of
        Inl e \<Rightarrow> Inl e
      | Inr d \<Rightarrow> fold_qsos lookupDXCC d qsos)"

section \<open>Mode categories and the pre-aggregation filters\<close>

definition MODE_ssb :: "string list" where
  "MODE_ssb = [''SSB'', ''USB'', ''LSB'', ''AM'']"

definition MODE_digital :: "string list" where
  "MODE_digital =
     [''FT8'', ''FT4'', ''JT65'', ''JT9'', ''JT4'', ''WSPR'', ''Q65'',
      ''RTTY'', ''PSK'', ''PSK31'', ''PSK63'', ''PSK125'', ''QPSK'', ''BPSK'',
      ''MFSK'', ''OLIVIA'', ''CONTESTIA'', ''HELL'', ''MT63'', ''DOMINO'', ''THROB'',
      ''VARA'', ''WINMOR'', ''ARDOP'', ''PACTOR'',
      ''PACKET'', ''APRS'', ''AX25'',
      ''FSK'', ''AFSK'']"

definition categorizeMode :: "string option \<Rightarrow> string" where
  "categorizeMode mode =
     (if \<not> truthy mode then ''unknown''
      else
        let upperMode = trim (toUpperCase (or_default mode [])) in
        if list_ex (\<lambda>digitalMode. upperMode = digitalMode
                      \<or> startsWith upperMode (digitalMode @ '' '')
                      \<or> includes_str upperMode digitalMode) MODE_digital
        then ''digital''
        else if upperMode = ''CW'' \<or> startsWith upperMode ''CW '' then ''cw''
        else if list_ex (\<lambda>ssbMode. upperMode = ssbMode
                           \<or> startsWith upperMode (ssbMode @ '' '')) MODE_ssb
        then ''ssb''
        else ''unknown'')"

text \<open>
  The records that enter the fold: \<open>filteredQsos\<close>. The operator filter is a string of
  the model, so an upper-cased callsign with a code unit above 255 differs from it.
\<close>

definition filteredQsos :: "qso list \<Rightarrow> string \<Rightarrow> string \<Rightarrow> qso list" where
  "filteredQsos qsos modeFilter operatorFilter =
     (let byMode = (if modeFilter = ''all'' then qsos
                    else filter (\<lambda>qso. categorizeMode (map_of qso ''MODE'') = modeFilter) qsos)
      in if operatorFilter \<noteq> ''all''
         then filter (\<lambda>qso.
                let call = or_default (js_or (map_of qso ''STATION_CALLSIGN'')
                                             (map_of qso ''OPERATOR'')) []
                in upper_in_range call \<and> toUpperCase call = operatorFilter) byMode
         else byMode)"

definition analyzeQSOs ::
    "lookup_table \<Rightarrow> qso list \<Rightarrow> string \<Rightarrow> string \<Rightarrow> js_error + dxccData" where
  "analyzeQSOs lookupDXCC qsos modeFilter operatorFilter =
     fold_qsos lookupDXCC [] (filteredQsos qsos modeFilter operatorFilter)"

section \<open>Display accessors and the post-aggregation filters\<close>

text \<open>
  The platform filter is the value of a \<open>select\<close> element: \<open>'all'\<close> (here \<open>None\<close>) or
  one of \<open>'lotw'\<close>, \<open>'eqsl'\<close>, \<open>'qrz'\<close>, \<open>'qsl'\<close>, used as a property name.
\<close>

datatype platform = LOTW | EQSL | QRZ | QSL

fun platform_of :: "platform \<Rightarrow> 'a platforms \<Rightarrow> 'a" where
  "platform_of LOTW x = p_lotw x"
| "platform_of EQSL x = p_eqsl x"
| "platform_of QRZ x = p_qrz x"
| "platform_of QSL x = p_qsl x"

fun entity_flag :: "platform \<Rightarrow> aggregate \<Rightarrow> bool" where
  "entity_flag LOTW data = lotw data"
| "entity_flag EQSL data = eqsl data"
| "entity_flag QRZ data = qrz data"
| "entity_flag QSL data = qsl data"

record filter_state =
  searchTerm :: string
  filterStatus :: string
  filterContinent :: string
  filterConfirmation :: "platform option"
  filterBand :: string


text \<open>
  \<open>filteredData\<close> before its final \<open>entries.sort\<close>: the entries that pass the search,
  continent, band, platform and status filters. The sort permutes them and is not
  modelled; \<open>Object.entries\<close> is the association list itself.
\<close>

definition filteredData :: "dxccData option \<Rightarrow> filter_state \<Rightarrow> (string \<times> aggregate) list" where
  "filteredData analyzedData fs =
     (case analyzedData of
        None \<Rightarrow> []
      | Some entries \<Rightarrow>
          let e1 = (if searchTerm fs \<noteq> [] then
                      let term = toLowerCase (searchTerm fs)
                      in filter (\<lambda>(dxccId, data).
                           includes_str (toLowerCase (country data)) term
                           \<or> includes_str dxccId term) entries
                    else entries);
              e2 = (if filterContinent fs \<noteq> ''all''
                    then filter (\<lambda>(dxccId, data). cont data = filterContinent fs) e1
                    else e1);
              e3 = (if filterBand fs \<noteq> ''all''
                    then filter (\<lambda>(dxccId, data).
                           map_of (bands data) (filterBand fs) = Some Confirmed
                           \<or> map_of (bands data) (filterBand fs) = Some Worked) e2
                    else e2);
              e4 = (case filterConfirmation fs of
                      None \<Rightarrow> e3
                    | Some p \<Rightarrow>
                        if filterBand fs \<noteq> ''all''
                        then filter (\<lambda>(dxccId, data).
                               (case map_of (bandConfirmations data) (filterBand fs) of
                                  None \<Rightarrow> False | Some bc \<Rightarrow> platform_of p bc)) e3
                        else filter (\<lambda>(dxccId, data). entity_flag p data) e3);
              bandsToCheck = (if filterBand fs \<noteq> ''all'' then [filterBand fs] else BANDS)
          in if filterStatus fs = ''confirmed''
             then filter (\<lambda>(dxccId, data).
                    list_ex (\<lambda>band. map_of (bands data) band = Some Confirmed) bandsToCheck) e4
             else if filterStatus fs = ''worked''
             then filter (\<lambda>(dxccId, data).
                    list_all (\<lambda>band. map_of (bands data) band \<noteq> Some Confirmed) bandsToCheck
                    \<and> list_ex (\<lambda>band. map_of (bands data) band = Some Worked) bandsToCheck) e4
             else e4)"

section \<open>The ADIF parser\<close>

text \<open>\<open>\w\<close> and \<open>\d\<close> of a regular expression without the \<open>u\<close> flag: ASCII only.\<close>

definition is_word_char :: "char \<Rightarrow> bool" where
  "is_word_char c =
     (let n = (of_char c :: nat)
      in (48 \<le> n \<and> n \<le> 57) \<or> (65 \<le> n \<and> n \<le> 90) \<or> n = 95 \<or> (97 \<le> n \<and> n \<le> 122))"

definition is_digit :: "char \<Rightarrow> bool" where
  "is_digit c = (let n = (of_char c :: nat) in 48 \<le> n \<and> n \<le> 57)"

text \<open>
  The tail \<open>(?::(\w))?>\<close> of a tag: an optional type letter, then the closing bracket.
  The result is the text after the bracket.
\<close>

definition close_tag :: "string \<Rightarrow> string option" where
  "close_tag r =
     (if r \<noteq> [] \<and> hd r = CHR '':'' \<and> length r \<ge> 3 \<and> is_word_char (r ! 1) \<and> r ! 2 = CHR ''>''
      then Some (drop 3 r)
      else if r \<noteq> [] \<and> hd r = CHR ''>'' then Some (tl r)
      else None)"

text \<open>
  \<open>/<(\w+):(\d+)(?::(\w))?>([^<]*)/\<close> matched at the head of a text. The greedy runs
  \<open>\w+\<close>, \<open>\d+\<close> and \<open>[^<]*\<close> are each followed by a character outside their class,
  so the longest run is the only one that can match. The result is the captures 1, 2 and
  4 (name, declared length, raw value) and the text after the match.
\<close>

definition match_tag :: "string \<Rightarrow> ((string \<times> string \<times> string) \<times> string) option" where
  "match_tag s =
     (if s = [] \<or> hd s \<noteq> CHR ''<'' then None
      else
        let r1 = tl s;
            fieldName = takeWhile is_word_char r1;
            r2 = dropWhile is_word_char r1
        in if fieldName = [] \<or> r2 = [] \<or> hd r2 \<noteq> CHR '':'' then None
           else
             let r3 = tl r2;
                 digits = takeWhile is_digit r3;
                 r4 = dropWhile is_digit r3
             in if digits = [] then None
                else (case close_tag r4 of
                        None \<Rightarrow> None
                      | Some r5 \<Rightarrow>
                          Some ((fieldName, digits, takeWhile (\<lambda>c. c \<noteq> CHR ''<'') r5),
                                dropWhile (\<lambda>c. c \<noteq> CHR ''<'') r5)))"

text \<open>One call of \<open>adifTagRegex.exec\<close>: the leftmost match in the text not yet consumed.\<close>

fun regex_exec :: "string \<Rightarrow> ((string \<times> string \<times> string) \<times> string) option" where
  "regex_exec [] = None"
| "regex_exec (c # cs) =
     (case match_tag (c # cs) of Some r \<Rightarrow> Some r | None \<Rightarrow> regex_exec cs)"

text \<open>
  The loop \<open>while ((match = adifTagRegex.exec(record)) !== null)\<close>: the successive
  matches, each search starting where the last match ended (\<open>lastIndex\<close>). The failing
  call that ends the loop resets \<open>lastIndex\<close> to 0, so every record starts afresh.
\<close>

function exec_all :: "string \<Rightarrow> (string \<times> string \<times> string) list" where
  "exec_all s = (case regex_exec s of None \<Rightarrow> [] | Some (m, rest) \<Rightarrow> m # exec_all rest)"
  by pat_completeness auto
termination
proof (relation "measure length")
  show "wf (measure (length :: string \<Rightarrow> nat))" by simp
next
  fix s :: string and x2 :: "(string \<times> string \<times> string) \<times> string"
    and m :: "string \<times> string \<times> string" and rest :: string
  assume ex: "regex_exec s = Some x2" and x2: "(m, rest) = x2"
  have dw: "length (dropWhile P xs) \<le> length xs" for P and xs :: string
    by (simp add: length_dropWhile_le)
  have tag: "length r < length t" if a: "match_tag t = Some (n, r)" for t n r
  proof -
    let ?r4 = "dropWhile is_digit (tl (dropWhile is_word_char (tl t)))"
    from a obtain r5 where r5: "r = dropWhile (\<lambda>c. c \<noteq> CHR ''<'') r5"
      and c: "close_tag ?r4 = Some r5" and ne: "t \<noteq> []"
      by (auto simp: match_tag_def Let_def split: if_splits option.splits)
    from c have "length r5 \<le> length ?r4"
      by (auto simp: close_tag_def split: if_splits)
    also have "\<dots> \<le> length (tl (dropWhile is_word_char (tl t)))" by (rule dw)
    also have "\<dots> \<le> length (dropWhile is_word_char (tl t))" by simp
    also have "\<dots> \<le> length (tl t)" by (rule dw)
    also have "\<dots> < length t" using ne by (cases t) auto
    finally have "length r5 < length t" .
    moreover have "length r \<le> length r5" unfolding r5 by (rule dw)
    ultimately show ?thesis by simp
  qed
  have ex_shorter: "length r < length t" if "regex_exec t = Some (n, r)" for t n r
    using that
  proof (induction t)
    case Nil
    then show ?case by simp
  next
    case (Cons c cs)
    show ?case
    proof (cases "match_tag (c # cs)")
      case None
      with Cons show ?thesis by auto
    next
      case (Some y)
      with Cons.prems have "match_tag (c # cs) = Some (n, r)" by simp
      then show ?thesis by (rule tag)
    qed
  qed
  from ex x2 have "regex_exec s = Some (m, rest)" by simp
  then have "length rest < length s" by (rule ex_shorter)
  then show "(rest, s) \<in> measure length" by simp
qed

declare exec_all.simps [simp del]

text \<open>\<open>parseInt(match[2], 10)\<close> on a run of digits.\<close>

definition parseInt :: "string \<Rightarrow> nat" where
  "parseInt ds = foldl (\<lambda>n c. 10 * n + (of_char c - 48)) 0 ds"

definition field_value :: "string \<Rightarrow> string \<Rightarrow> string" where
  "field_value digits rawValue =
     (let declaredLength = parseInt digits
      in if declaredLength > 0 \<and> length rawValue > declaredLength
         then trim (take declaredLength rawValue)
         else trim rawValue)"

definition store_field :: "qso \<Rightarrow> string \<times> string \<times> string \<Rightarrow> qso" where
  "store_field qso m =
     (case m of (name, digits, rawValue) \<Rightarrow>
        AList.update (toUpperCase name) (field_value digits rawValue) qso)"

definition parse_record :: "string \<Rightarrow> qso" where
  "parse_record record = foldl store_field [] (exec_all record)"

text \<open>
  \<open>content.split(/<eor>/i)\<close>: the pieces between the occurrences of the marker, found
  left to right. The first argument collects the current piece, reversed.
\<close>

definition eor_at :: "string \<Rightarrow> bool" where
  "eor_at s = (toLowerCase (take 5 s) = ''<eor>'')"

fun split_eor :: "string \<Rightarrow> string \<Rightarrow> string list" where
  "split_eor acc [] = [rev acc]"
| "split_eor acc (c # cs) =
     (if eor_at (c # cs) then rev acc # split_eor [] (drop 4 cs) else split_eor (c # acc) cs)"

text \<open>The body of \<open>records.forEach\<close>: the records one piece contributes, none or one.\<close>

definition record_of_chunk :: "string \<Rightarrow> qso list" where
  "record_of_chunk record =
     (if trim record = [] then []
      else let qso = parse_record record in if length qso > 0 then [qso] else [])"

definition parseADIF :: "string \<Rightarrow> qso list" where
  "parseADIF content = concat (map record_of_chunk (split_eor [] content))"

section \<open>Notions used in the statements\<close>

text \<open>
  A contact of entity \<open>dxccId\<close> on band \<open>b\<close>: a record whose \<open>DXCC\<close> field is the
  identifier and whose \<open>BAND\<close> field, in lower case, is the band.
\<close>

definition contact_on :: "string \<Rightarrow> string \<Rightarrow> qso \<Rightarrow> bool" where
  "contact_on dxccId b q =
     (map_of q ''DXCC'' = Some dxccId \<and> map_option toLowerCase (map_of q ''BAND'') = Some b)"

text \<open>The same for the records of one entity: the band alone.\<close>

definition on_band :: "string \<Rightarrow> qso \<Rightarrow> bool" where
  "on_band b q = (map_option toLowerCase (map_of q ''BAND'') = Some b)"

text \<open>
  The status \<open>dxccData[dxccId].bands[b]\<close>; \<open>None\<close> when the identifier has no entry.
\<close>

definition band_status_of :: "dxccData \<Rightarrow> string \<Rightarrow> string \<Rightarrow> band_status option" where
  "band_status_of d dxccId b =
     (case map_of d dxccId of None \<Rightarrow> None | Some a \<Rightarrow> map_of (bands a) b)"

text \<open>
  The final status when the call returns, the error when it raises.
\<close>

definition final_status ::
    "js_error + dxccData \<Rightarrow> string \<Rightarrow> string \<Rightarrow> js_error + band_status option" where
  "final_status r dxccId b =
     (case r of Inl e \<Rightarrow> Inl e | Inr d \<Rightarrow> Inr (band_status_of d dxccId b))"

text \<open>What a call returned, if it returned.\<close>

definition returned :: "js_error + 'a \<Rightarrow> 'a option" where
  "returned r = (case r of Inl e \<Rightarrow> None | Inr x \<Rightarrow> Some x)"

text \<open>The entry of an identifier in what a call returned; none when it raised.\<close>

definition entry_of :: "js_error + dxccData \<Rightarrow> string \<Rightarrow> aggregate option" where
  "entry_of r dxccId = (case r of Inl e \<Rightarrow> None | Inr d \<Rightarrow> map_of d dxccId)"

text \<open>A record whose grouping key \<open>DXCC\<close> is present and not empty.\<close>

definition keyed :: "qso \<Rightarrow> bool" where
  "keyed q = truthy (map_of q ''DXCC'')"

text \<open>
  A record whose identifier names an inherited property, and such a record on which the
  loop body raises when the identifier has no entry.
\<close>

definition inherited_id :: "qso \<Rightarrow> bool" where
  "inherited_id q =
     (case map_of q ''DXCC'' of None \<Rightarrow> False | Some i \<Rightarrow> i \<in> set inherited_names)"

definition raises :: "qso \<Rightarrow> bool" where
  "raises q =
     (inherited_id q
      \<and> (p_lotw (platform_hits q) \<or> p_eqsl (platform_hits q) \<or> p_qsl (platform_hits q)
           \<or> p_qrz (platform_hits q) \<or> recognized_band (map_of q ''BAND'')))"

text \<open>
  The loop body and the fold on entries alone, without the inherited properties. They are
  used in the proofs.
\<close>

definition add_own :: "lookup_table \<Rightarrow> dxccData \<Rightarrow> qso \<Rightarrow> dxccData" where
  "add_own lk d q =
     (case map_of q ''DXCC'' of
        None \<Rightarrow> d
      | Some i \<Rightarrow> if i = [] then d else add_entry lk d i q)"

definition own_fold :: "lookup_table \<Rightarrow> qso list \<Rightarrow> dxccData" where
  "own_fold lk qs = foldl (add_own lk) [] qs"

text \<open>No entry is stored under the name of an inherited property.\<close>

definition own_keys :: "dxccData \<Rightarrow> bool" where
  "own_keys d = (\<forall>k\<in>fst ` set d. k \<notin> set inherited_names)"

text \<open>The sum of \<open>total\<close> over the entries, as the statistics compute it with \<open>reduce\<close>.\<close>

definition total_contacts :: "dxccData \<Rightarrow> nat" where
  "total_contacts d = sum_list (map (\<lambda>(dxccId, a). total_n a) d)"

text \<open>
  The entry of one identifier, computed from the records that bear it: the entry made
  from the first of them, with each of them folded in. It is used in the proofs, for a
  list that is not empty.
\<close>

definition entry_fold :: "lookup_table \<Rightarrow> string \<Rightarrow> qso list \<Rightarrow> aggregate" where
  "entry_fold lk dxccId rs =
     foldl (\<lambda>a q. fold_into q a)
       (new_entry (resolve_country lk dxccId (hd rs)) (resolve_continent lk dxccId (hd rs))
          (resolve_deleted lk dxccId)) rs"

text \<open>A small lookup table and a small log, for concrete instances.\<close>

definition example_lookup :: lookup_table where
  "example_lookup dxccId =
     (if dxccId = ''291''
      then Some \<lparr> entity_name = ''United States'', entity_cont = ''NA'', entity_deleted = False \<rparr>
      else if dxccId = ''5''
      then Some \<lparr> entity_name = ''Aland Islands'', entity_cont = ''EU'', entity_deleted = False \<rparr>
      else if dxccId = ''1''
      then Some \<lparr> entity_name = ''Canada'', entity_cont = ''NA'', entity_deleted = False \<rparr>
      else None)"

definition example_qsos :: "qso list" where
  "example_qsos =
     [ [(''DXCC'', ''291''), (''BAND'', ''20m'')],
      [(''DXCC'', ''291''), (''BAND'', ''20M''), (''LOTW_QSL_RCVD'', ''Y'')],
      [(''DXCC'', ''5''), (''BAND'', ''40m'')] ]"

definition example_renamed :: "qso list" where
  "example_renamed =
     [ [(''DXCC'', ''291''), (''COUNTRY'', ''USA''), (''CONT'', ''NA'')],
      [(''DXCC'', ''291''), (''COUNTRY'', ''United States of America''), (''CONT'', ''EU'')] ]"

definition example_cont_eu :: "qso list" where
  "example_cont_eu = [ [(''DXCC'', ''291''), (''CONT'', ''EU'')] ]"

definition example_filter :: filter_state where
  "example_filter =
     \<lparr> searchTerm = [], filterStatus = ''notworked'', filterContinent = ''all'',
       filterConfirmation = None, filterBand = ''40m'' \<rparr>"

definition example_inherited :: "qso list" where
  "example_inherited = [ [(''DXCC'', ''constructor'')] ]"

definition example_inherited_band :: "qso list" where
  "example_inherited_band = [ [(''DXCC'', ''constructor''), (''BAND'', ''20m'')] ]"

section \<open>The verification predicate\<close>

lemma toUpperUnits_nonempty: "toUpperUnits c \<noteq> []"
  by (simp add: toUpperUnits_def Let_def)

lemma length_toUpperCase: "length s \<le> length (toUpperCase s)"
proof (induction s)
  case Nil
  show ?case by (simp add: toUpperCase_def)
next
  case (Cons c s)
  have "1 \<le> length (toUpperUnits c)"
    using toUpperUnits_nonempty [of c] by (cases "toUpperUnits c") simp_all
  with Cons show ?case by (simp add: toUpperCase_def)
qed

lemma char_of_eq_nat: "char_of (k :: nat) = d \<longleftrightarrow> k mod 256 = of_char d"
  by (simp add: char_of_eq_iff take_bit_eq_mod)

lemma toUpperUnits_eq_Y: "toUpperUnits c = ''Y'' \<longleftrightarrow> c = CHR ''Y'' \<or> c = CHR ''y''"
proof -
  have a: "(d = CHR ''Y'') = ((of_char d :: nat) = 89)" for d
    using of_char_eq_iff [of d "CHR ''Y''", where ?'a = nat] by simp
  have b: "(d = CHR ''y'') = ((of_char d :: nat) = 121)" for d
    using of_char_eq_iff [of d "CHR ''y''", where ?'a = nat] by simp
  show ?thesis
    by (auto simp: toUpperUnits_def Let_def char_of_eq_nat a b split: if_splits)
qed

lemma toUpperUnits_eq_V: "toUpperUnits c = ''V'' \<longleftrightarrow> c = CHR ''V'' \<or> c = CHR ''v''"
proof -
  have a: "(d = CHR ''V'') = ((of_char d :: nat) = 86)" for d
    using of_char_eq_iff [of d "CHR ''V''", where ?'a = nat] by simp
  have b: "(d = CHR ''v'') = ((of_char d :: nat) = 118)" for d
    using of_char_eq_iff [of d "CHR ''v''", where ?'a = nat] by simp
  show ?thesis
    by (auto simp: toUpperUnits_def Let_def char_of_eq_nat a b split: if_splits)
qed

lemma toUpperCase_single:
  "toUpperCase v = [x] \<longleftrightarrow> (\<exists>c. v = [c] \<and> toUpperUnits c = [x])"
proof
  assume a: "toUpperCase v = [x]"
  with length_toUpperCase [of v] have "length v \<le> 1" by simp
  moreover from a have "v \<noteq> []" by (auto simp: toUpperCase_def)
  ultimately obtain c where "v = [c]" by (cases v) auto
  with a show "\<exists>c. v = [c] \<and> toUpperUnits c = [x]" by (simp add: toUpperCase_def)
next
  assume "\<exists>c. v = [c] \<and> toUpperUnits c = [x]"
  then show "toUpperCase v = [x]" by (auto simp: toUpperCase_def)
qed

lemma isYV_iff:
  "isYV x \<longleftrightarrow> (\<exists>v. x = Some v \<and> (v = ''Y'' \<or> v = ''y'' \<or> v = ''V'' \<or> v = ''v''))"
proof (cases x)
  case None
  then show ?thesis by (simp add: isYV_def)
next
  case (Some v)
  have "toUpperCase v = ''Y'' \<longleftrightarrow> v = ''Y'' \<or> v = ''y''"
    unfolding toUpperCase_single toUpperUnits_eq_Y by auto
  moreover have "toUpperCase v = ''V'' \<longleftrightarrow> v = ''V'' \<or> v = ''v''"
    unfolding toUpperCase_single toUpperUnits_eq_V by auto
  ultimately show ?thesis using Some by (auto simp: isYV_def)
qed

text \<open>
  Claim C5. A record is confirmed exactly when one of the six fields \<open>LOTW_QSL_RCVD\<close>,
  \<open>EQSL_QSL_RCVD\<close>, \<open>QSL_RCVD\<close>, \<open>QRZCOM_QSL_RCVD\<close>, \<open>QRZ_QSL_RCVD\<close>,
  \<open>QRZCOM_QSO_DOWNLOAD_STATUS\<close> holds \<open>Y\<close> or \<open>V\<close> in either case; and the field
  \<open>QRZCOM_QSO_UPLOAD_STATUS\<close> has no influence: setting it to any value, or removing it,
  leaves the result as it was.
\<close>

theorem isConfirmed_six_fields:
  "(isConfirmed qso \<longleftrightarrow>
      (\<exists>f \<in> {''LOTW_QSL_RCVD'', ''EQSL_QSL_RCVD'', ''QSL_RCVD'',
               ''QRZCOM_QSL_RCVD'', ''QRZ_QSL_RCVD'', ''QRZCOM_QSO_DOWNLOAD_STATUS''}.
         \<exists>v. map_of qso f = Some v \<and> (v = ''Y'' \<or> v = ''y'' \<or> v = ''V'' \<or> v = ''v'')))
   \<and> isConfirmed (AList.update ''QRZCOM_QSO_UPLOAD_STATUS'' x qso) = isConfirmed qso
   \<and> isConfirmed (AList.delete ''QRZCOM_QSO_UPLOAD_STATUS'' qso) = isConfirmed qso"
proof (intro conjI)
  show "isConfirmed qso \<longleftrightarrow>
      (\<exists>f \<in> {''LOTW_QSL_RCVD'', ''EQSL_QSL_RCVD'', ''QSL_RCVD'',
               ''QRZCOM_QSL_RCVD'', ''QRZ_QSL_RCVD'', ''QRZCOM_QSO_DOWNLOAD_STATUS''}.
         \<exists>v. map_of qso f = Some v \<and> (v = ''Y'' \<or> v = ''y'' \<or> v = ''V'' \<or> v = ''v''))"
    unfolding isConfirmed_def confirmFields_def list_ex_iff isYV_iff by simp
  show "isConfirmed (AList.update ''QRZCOM_QSO_UPLOAD_STATUS'' x qso) = isConfirmed qso"
    by (simp add: isConfirmed_def confirmFields_def update_conv')
  show "isConfirmed (AList.delete ''QRZCOM_QSO_UPLOAD_STATUS'' qso) = isConfirmed qso"
    by (simp add: isConfirmed_def confirmFields_def delete_conv')
qed

theorem isConfirmed_six_fields_witness:
  "isConfirmed [(''DXCC'', ''291''), (''QRZ_QSL_RCVD'', ''v'')]
   \<and> \<not> isConfirmed [(''DXCC'', ''291''), (''QRZCOM_QSO_UPLOAD_STATUS'', ''Y'')]
   \<and> \<not> isConfirmed (AList.update ''QRZCOM_QSO_UPLOAD_STATUS'' ''Y'' [(''DXCC'', ''291'')])"
  using isConfirmed_six_fields [of "[(''DXCC'', ''291''), (''QRZ_QSL_RCVD'', ''v'')]" "''Y''"]
    isConfirmed_six_fields [of "[(''DXCC'', ''291''), (''QRZCOM_QSO_UPLOAD_STATUS'', ''Y'')]" "''Y''"]
    isConfirmed_six_fields [of "[(''DXCC'', ''291'')]" "''Y''"]
  by simp

section \<open>The fold, entry by entry\<close>

lemma add_own_map_of:
  "map_of (add_own lk d q) i =
     (if i \<noteq> [] \<and> map_of q ''DXCC'' = Some i
      then Some (fold_into q (case map_of d i of
                    None \<Rightarrow> new_entry (resolve_country lk i q) (resolve_continent lk i q)
                              (resolve_deleted lk i)
                  | Some a \<Rightarrow> a))
      else map_of d i)"
  by (auto simp: add_own_def add_entry_def Let_def map_of_map_entry update_conv' split: option.splits)

lemma analyze_entry:
  "i \<noteq> [] \<Longrightarrow>
   map_of (foldl (add_own lk) [] qs) i =
     (if filter (\<lambda>q. map_of q ''DXCC'' = Some i) qs = [] then None
      else Some (entry_fold lk i (filter (\<lambda>q. map_of q ''DXCC'' = Some i) qs)))"
proof (induction qs rule: rev_induct)
  case Nil
  then show ?case by simp
next
  case (snoc q qs)
  show ?case
  proof (cases "map_of q ''DXCC'' = Some i")
    case False
    with snoc show ?thesis by (simp add: add_own_map_of)
  next
    case True
    show ?thesis
    proof (cases "filter (\<lambda>q. map_of q ''DXCC'' = Some i) qs = []")
      case e: True
      with True snoc show ?thesis by (simp add: add_own_map_of entry_fold_def)
    next
      case ne: False
      with True snoc show ?thesis by (simp add: add_own_map_of entry_fold_def)
    qed
  qed
qed

lemma analyze_empty_id: "map_of (foldl (add_own lk) [] qs) [] = None"
  by (induction qs rule: rev_induct) (simp_all add: add_own_map_of)

lemma map_of_const_keys:
  "map_of (map (\<lambda>b. (b, v)) xs) b = (if b \<in> set xs then Some v else None)"
  by (induction xs) auto

lemma on_band_normalized:
  assumes "b \<in> set BANDS"
  shows "on_band b q \<longleftrightarrow>
         (\<exists>bnd. map_of q ''BAND'' = Some bnd \<and> bnd \<noteq> [] \<and> toLowerCase bnd \<in> set BANDS
                \<and> toLowerCase bnd = b)"
proof -
  have "b \<noteq> []" using assms by (auto simp: BANDS_def)
  then have "toLowerCase bnd = b \<Longrightarrow> bnd \<noteq> []" for bnd
    by (auto simp: toLowerCase_def)
  with assms show ?thesis by (auto simp: on_band_def)
qed

lemma update_band_frame [simp]:
  "country (update_band band c h a) = country a"
  "cont (update_band band c h a) = cont a"
  "deleted (update_band band c h a) = deleted a"
  "total_n (update_band band c h a) = total_n a"
  by (simp_all add: update_band_def Let_def split: option.splits)

lemma update_platforms_frame [simp]:
  "country (update_platforms h a) = country a"
  "cont (update_platforms h a) = cont a"
  "deleted (update_platforms h a) = deleted a"
  "total_n (update_platforms h a) = total_n a"
  "bands (update_platforms h a) = bands a"
  "bandQsos (update_platforms h a) = bandQsos a"
  "bandConfirmations (update_platforms h a) = bandConfirmations a"
  "bandPlatformQsos (update_platforms h a) = bandPlatformQsos a"
  by (simp_all add: update_platforms_def)

lemma fold_into_frame:
  "country (fold_into q a) = country a"
  "cont (fold_into q a) = cont a"
  "deleted (fold_into q a) = deleted a"
  "total_n (fold_into q a) = total_n a + 1"
  by (simp_all add: fold_into_def Let_def)

lemma fold_into_bands:
  assumes "b \<in> set BANDS"
  shows "map_of (bands (fold_into q a)) b =
           (if on_band b q
            then Some (if isConfirmed q then Confirmed
                       else if map_of (bands a) b = None \<or> map_of (bands a) b = Some Null
                            then Worked else the (map_of (bands a) b))
            else map_of (bands a) b)"
proof (cases "on_band b q")
  case True
  then obtain bnd where "map_of q ''BAND'' = Some bnd" "bnd \<noteq> []"
    "toLowerCase bnd \<in> set BANDS" "toLowerCase bnd = b"
    using on_band_normalized [OF assms] by blast
  with True show ?thesis
    by (auto simp: fold_into_def update_band_def Let_def update_conv')
next
  case False
  then have "\<And>bnd. map_of q ''BAND'' = Some bnd \<Longrightarrow> toLowerCase bnd \<noteq> b"
    by (auto simp: on_band_def)
  with False show ?thesis
    by (auto simp: fold_into_def update_band_def Let_def update_conv' split: option.splits)
qed



lemma folded_frame:
  "country (foldl (\<lambda>a q. fold_into q a) a0 rs) = country a0"
  "cont (foldl (\<lambda>a q. fold_into q a) a0 rs) = cont a0"
  "deleted (foldl (\<lambda>a q. fold_into q a) a0 rs) = deleted a0"
  "total_n (foldl (\<lambda>a q. fold_into q a) a0 rs) = total_n a0 + length rs"
  by (induction rs rule: rev_induct) (simp_all add: fold_into_frame)

lemma folded_bands:
  assumes "b \<in> set BANDS"
  shows "map_of (bands (foldl (\<lambda>a q. fold_into q a) (new_entry c k d) rs)) b =
           Some (if \<exists>q\<in>set rs. on_band b q \<and> isConfirmed q then Confirmed
                 else if \<exists>q\<in>set rs. on_band b q then Worked else Null)"
proof (induction rs rule: rev_induct)
  case Nil
  show ?case using assms by (simp add: new_entry_def map_of_const_keys)
next
  case (snoc q rs)
  show ?case
    using snoc by (simp add: fold_into_bands [OF assms]) blast
qed



lemma own_fold_entry:
  assumes "map_of (own_fold lk F) i = Some a"
  defines "rs \<equiv> filter (\<lambda>q. map_of q ''DXCC'' = Some i) (F)"
  shows "i \<noteq> []" and "rs \<noteq> []" and "a = entry_fold lk i rs"
proof -
  show ne: "i \<noteq> []"
    using assms(1) by (auto simp: own_fold_def analyze_empty_id)
  from assms(1) show "rs \<noteq> []" "a = entry_fold lk i rs"
    unfolding own_fold_def analyze_entry [OF ne] rs_def
    by (auto split: if_splits)
qed

lemma contact_on_filter:
  "(\<exists>q\<in>set (filter (\<lambda>q. map_of q ''DXCC'' = Some i) F). on_band b q \<and> P q)
     \<longleftrightarrow> (\<exists>q\<in>set F. contact_on i b q \<and> P q)"
  by (auto simp: contact_on_def on_band_def)

lemma entry_band_status:
  assumes "map_of (own_fold lk F) i = Some a" and "b \<in> set BANDS"
  shows "map_of (bands a) b =
           Some (if \<exists>q\<in>set (F). contact_on i b q \<and> isConfirmed q
                 then Confirmed
                 else if \<exists>q\<in>set (F). contact_on i b q
                 then Worked else Null)"
proof -
  have "a = entry_fold lk i (filter (\<lambda>q. map_of q ''DXCC'' = Some i) (F))"
    using own_fold_entry(3) [OF assms(1)] .
  then show ?thesis
    using contact_on_filter [of i "F" b isConfirmed]
      contact_on_filter [of i "F" b "\<lambda>_. True"]
    by (simp add: entry_fold_def folded_bands [OF assms(2)])
qed

lemma add_own_keeps_confirmed:
  assumes "map_of d i = Some x" and "map_of (bands x) b = Some Confirmed" and "b \<in> set BANDS"
  shows "\<exists>x'. map_of (add_own lk d q) i = Some x' \<and> map_of (bands x') b = Some Confirmed"
  using assms by (auto simp: add_own_map_of fold_into_bands)

section \<open>From the loop with inherited properties to the fold on entries\<close>

lemma add_qso_cases:
  "add_qso lk d q = Inr d' \<Longrightarrow> d' = d \<or> d' = add_own lk d q"
  by (auto simp: add_qso_def add_own_def Let_def split: option.splits if_splits)

lemma add_qso_entry_present:
  assumes "map_of d i = Some x" and "add_qso lk d q = Inr d'"
  shows "d' = add_own lk d q \<or> (d' = d \<and> map_of q ''DXCC'' \<noteq> Some i)"
  using assms
  by (auto simp: add_qso_def add_own_def Let_def split: option.splits if_splits)

lemma own_keys_map_of: "own_keys d \<Longrightarrow> i \<in> set inherited_names \<Longrightarrow> map_of d i = None"
  by (auto simp: own_keys_def map_of_eq_None_iff)

lemma add_qso_own_keys:
  assumes "own_keys d"
  shows "add_qso lk d q =
           (if raises q then Inl TypeError
            else Inr (if inherited_id q then d else add_own lk d q))"
proof (cases "map_of q ''DXCC''")
  case None
  then show ?thesis by (simp add: add_qso_def add_own_def raises_def inherited_id_def)
next
  case (Some i)
  show ?thesis
  proof (cases "i \<in> set inherited_names")
    case True
    then have "i \<noteq> []" by (auto simp: inherited_names_def)
    with True Some own_keys_map_of [OF assms True] show ?thesis
      by (simp add: add_qso_def raises_def inherited_id_def Let_def)
  next
    case False
    with Some show ?thesis
      by (simp add: add_qso_def add_own_def raises_def inherited_id_def)
  qed
qed

lemma add_own_keys:
  "fst ` set (add_own lk d q) \<subseteq> fst ` set d \<union> set_option (map_of q ''DXCC'')"
proof (cases "map_of q ''DXCC''")
  case None
  then show ?thesis by (simp add: add_own_def)
next
  case (Some i)
  have "fst ` set (add_entry lk d i q) \<subseteq> insert i (fst ` set d)"
    unfolding add_entry_def Let_def dom_map_entry
    by (simp add: dom_update subset_insertI)
  with Some show ?thesis by (auto simp: add_own_def)
qed

lemma add_own_own_keys:
  assumes "own_keys d" and "\<not> inherited_id q"
  shows "own_keys (add_own lk d q)"
  unfolding own_keys_def
proof
  fix k
  assume "k \<in> fst ` set (add_own lk d q)"
  with add_own_keys [of lk d q]
  have "k \<in> fst ` set d \<or> map_of q ''DXCC'' = Some k" by auto
  then show "k \<notin> set inherited_names"
    using assms by (auto simp: own_keys_def inherited_id_def)
qed

lemma fold_qsos_own_keys:
  assumes "own_keys d"
  shows "fold_qsos lk d qs =
           (if \<exists>q\<in>set qs. raises q then Inl TypeError
            else Inr (foldl (add_own lk) d (filter (\<lambda>q. \<not> inherited_id q) qs)))"
  using assms
proof (induction qs arbitrary: d)
  case Nil
  show ?case by simp
next
  case (Cons q qs)
  show ?case
  proof (cases "raises q")
    case True
    then show ?thesis by (simp add: add_qso_own_keys [OF Cons.prems])
  next
    case False
    show ?thesis
    proof (cases "inherited_id q")
      case True
      with False Cons.IH [OF Cons.prems] show ?thesis
        by (simp add: add_qso_own_keys [OF Cons.prems])
    next
      case nin: False
      from add_own_own_keys [OF Cons.prems nin]
      have "own_keys (add_own lk d q)" .
      from Cons.IH [OF this] False nin show ?thesis
        by (simp add: add_qso_own_keys [OF Cons.prems])
    qed
  qed
qed

lemma analyzeQSOs_eq:
  "analyzeQSOs lk qsos mf opf =
     (if \<exists>q\<in>set (filteredQsos qsos mf opf). raises q then Inl TypeError
      else Inr (own_fold lk (filter (\<lambda>q. \<not> inherited_id q) (filteredQsos qsos mf opf))))"
proof -
  have "own_keys []" by (simp add: own_keys_def)
  from fold_qsos_own_keys [OF this] show ?thesis
    by (simp add: analyzeQSOs_def own_fold_def)
qed

lemma analyzeQSOs_returned:
  assumes "analyzeQSOs lk qsos mf opf = Inr d"
  shows "d = own_fold lk (filter (\<lambda>q. \<not> inherited_id q) (filteredQsos qsos mf opf))"
  using assms unfolding analyzeQSOs_eq by (simp split: if_splits)

lemma entry_not_inherited:
  assumes "map_of (own_fold lk (filter (\<lambda>q. \<not> inherited_id q) F)) i = Some a"
  shows "i \<notin> set inherited_names"
proof -
  from own_fold_entry(2) [OF assms]
  obtain q where "q \<in> set F" "\<not> inherited_id q" "map_of q ''DXCC'' = Some i"
    by (auto simp: filter_empty_conv)
  then show ?thesis by (auto simp: inherited_id_def)
qed

lemma contact_on_own:
  assumes "i \<notin> set inherited_names"
  shows "(\<exists>q\<in>set (filter (\<lambda>q. \<not> inherited_id q) F). contact_on i b q \<and> P q)
           \<longleftrightarrow> (\<exists>q\<in>set F. contact_on i b q \<and> P q)"
  using assms by (auto simp: contact_on_def inherited_id_def)


lemma filter_id_own:
  assumes "i \<notin> set inherited_names"
  shows "filter (\<lambda>q. map_of q ''DXCC'' = Some i) (filter (\<lambda>q. \<not> inherited_id q) F)
         = filter (\<lambda>q. map_of q ''DXCC'' = Some i) F"
  using assms by (induction F) (auto simp: inherited_id_def)

lemma fold_qsos_append:
  "fold_qsos lk d (xs @ ys) =
     (case fold_qsos lk d xs of Inl e \<Rightarrow> Inl e | Inr d' \<Rightarrow> fold_qsos lk d' ys)"
  by (induction xs arbitrary: d) (auto split: sum.splits)

section \<open>Band status\<close>

lemma returned_band_status:
  assumes "analyzeQSOs lk qsos mf opf = Inr d" and "map_of d i = Some a" and "b \<in> set BANDS"
  shows "map_of (bands a) b =
           Some (if \<exists>q\<in>set (filteredQsos qsos mf opf). contact_on i b q \<and> isConfirmed q
                 then Confirmed
                 else if \<exists>q\<in>set (filteredQsos qsos mf opf). contact_on i b q
                 then Worked else Null)"
proof -
  let ?G = "filter (\<lambda>q. \<not> inherited_id q) (filteredQsos qsos mf opf)"
  from analyzeQSOs_returned [OF assms(1)] assms(2)
  have e: "map_of (own_fold lk ?G) i = Some a" by simp
  from entry_not_inherited [OF e] have n: "i \<notin> set inherited_names" .
  show ?thesis
    using entry_band_status [OF e assms(3)]
      contact_on_own [OF n, of "filteredQsos qsos mf opf" b isConfirmed]
      contact_on_own [OF n, of "filteredQsos qsos mf opf" b "\<lambda>_. True"]
    by simp
qed

lemma add_qso_keeps_confirmed:
  assumes "map_of s i = Some x" and "map_of (bands x) b = Some Confirmed" and "b \<in> set BANDS"
    and "add_qso lk s q = Inr s'"
  shows "\<exists>x'. map_of s' i = Some x' \<and> map_of (bands x') b = Some Confirmed"
proof -
  from add_qso_cases [OF assms(4)] show ?thesis
  proof
    assume "s' = s"
    with assms(1,2) show ?thesis by simp
  next
    assume "s' = add_own lk s q"
    with add_own_keeps_confirmed [OF assms(1,2,3), of lk q] show ?thesis by simp
  qed
qed

text \<open>
  Claim C1. For every entry that \<open>analyzeQSOs\<close> produces and every band of
  \<open>BANDS\<close>: the status is \<open>'C'\<close> exactly when a folded contact of the entity on that
  band satisfies \<open>isConfirmed\<close>; it is \<open>'W'\<close> exactly when there is a contact on the
  band and none satisfies \<open>isConfirmed\<close>; it is \<open>null\<close> exactly when there is no contact
  on the band; and folding one more record into any state never changes a status that is
  \<open>'C'\<close>.
\<close>

theorem band_status_characterised:
  assumes "analyzeQSOs lk qsos mf opf = Inr d" and "map_of d i = Some a" and "b \<in> set BANDS"
  shows "(map_of (bands a) b = Some Confirmed \<longleftrightarrow>
            (\<exists>q\<in>set (filteredQsos qsos mf opf). contact_on i b q \<and> isConfirmed q))
       \<and> (map_of (bands a) b = Some Worked \<longleftrightarrow>
            (\<exists>q\<in>set (filteredQsos qsos mf opf). contact_on i b q)
            \<and> \<not> (\<exists>q\<in>set (filteredQsos qsos mf opf). contact_on i b q \<and> isConfirmed q))
       \<and> (map_of (bands a) b = Some Null \<longleftrightarrow>
            \<not> (\<exists>q\<in>set (filteredQsos qsos mf opf). contact_on i b q))
       \<and> (\<forall>s q x s'. map_of s i = Some x \<and> map_of (bands x) b = Some Confirmed
              \<and> add_qso lk s q = Inr s' \<longrightarrow>
            (\<exists>x'. map_of s' i = Some x' \<and> map_of (bands x') b = Some Confirmed))"
proof -
  note st = returned_band_status [OF assms]
  have mono: "\<forall>s q x s'. map_of s i = Some x \<and> map_of (bands x) b = Some Confirmed
              \<and> add_qso lk s q = Inr s' \<longrightarrow>
            (\<exists>x'. map_of s' i = Some x' \<and> map_of (bands x') b = Some Confirmed)"
    using add_qso_keeps_confirmed [OF _ _ assms(3)] by blast
  show ?thesis
    unfolding st using mono by auto
qed

theorem band_status_characterised_witness:
  "returned (analyzeQSOs example_lookup example_qsos ''all'' ''all'') \<noteq> None
   \<and> ''20m'' \<in> set BANDS
   \<and> final_status (analyzeQSOs example_lookup example_qsos ''all'' ''all'') ''291'' ''20m''
     = Inr (Some Confirmed)
   \<and> final_status
       (analyzeQSOs example_lookup (example_qsos @ [ [(''DXCC'', ''291''), (''BAND'', ''20m'')] ])
          ''all'' ''all'') ''291'' ''20m''
     = Inr (Some Confirmed)"
proof -
  let ?r = "analyzeQSOs example_lookup example_qsos ''all'' ''all''"
  let ?q = "[(''DXCC'', ''291''), (''BAND'', ''20m'')]"
  let ?r2 = "analyzeQSOs example_lookup (example_qsos @ [?q]) ''all'' ''all''"
  have "case ?r of Inl e \<Rightarrow> False | Inr d \<Rightarrow> map_of d ''291'' \<noteq> None" by code_simp
  then obtain d x where h1: "?r = Inr d" and h2: "map_of d ''291'' = Some x"
    by (auto split: sum.splits)
  have h3: "''20m'' \<in> set BANDS" by (simp add: BANDS_def)
  have c: "\<exists>q\<in>set (filteredQsos example_qsos ''all'' ''all'').
             contact_on ''291'' ''20m'' q \<and> isConfirmed q"
    by code_simp
  note t = band_status_characterised [OF h1 h2 h3]
  from t c have s: "map_of (bands x) ''20m'' = Some Confirmed" by blast
  have w0: "returned ?r \<noteq> None" by (simp add: h1 returned_def)
  have w1: "final_status ?r ''291'' ''20m'' = Inr (Some Confirmed)"
    by (simp add: final_status_def band_status_of_def h1 h2 s)
  have "?r2 = (case ?r of Inl e \<Rightarrow> Inl e | Inr d \<Rightarrow> fold_qsos example_lookup d [?q])"
    by (simp add: analyzeQSOs_def filteredQsos_def fold_qsos_append)
  then have r2: "?r2 = (case add_qso example_lookup d ?q of Inl e \<Rightarrow> Inl e | Inr d' \<Rightarrow> Inr d')"
    by (simp add: h1 split: sum.splits)
  have "returned ?r2 \<noteq> None" by code_simp
  with r2 obtain d' where a: "add_qso example_lookup d ?q = Inr d'" and r2': "?r2 = Inr d'"
    by (auto simp: returned_def split: sum.splits)
  from t h2 s a obtain x' where x': "map_of d' ''291'' = Some x'"
    "map_of (bands x') ''20m'' = Some Confirmed"
    by blast
  have w2: "final_status ?r2 ''291'' ''20m'' = Inr (Some Confirmed)"
    by (simp add: final_status_def band_status_of_def r2' x')
  from w0 h3 w1 w2 show ?thesis by (intro conjI)
qed

section \<open>Order independence\<close>

lemma own_fold_present:
  "map_of (own_fold lk F) i \<noteq> None \<longleftrightarrow>
     i \<noteq> [] \<and> (\<exists>q\<in>set F. map_of q ''DXCC'' = Some i)"
proof (cases "i = []")
  case True
  then show ?thesis by (simp add: own_fold_def analyze_empty_id)
next
  case False
  then show ?thesis
    by (auto simp: own_fold_def analyze_entry filter_empty_conv)
qed

lemma band_status_by_set:
  assumes "b \<in> set BANDS"
  shows "band_status_of (own_fold lk F) i b =
           (if i \<noteq> [] \<and> (\<exists>q\<in>set F. map_of q ''DXCC'' = Some i)
            then Some (if \<exists>q\<in>set F. contact_on i b q \<and> isConfirmed q
                       then Confirmed
                       else if \<exists>q\<in>set F. contact_on i b q
                       then Worked else Null)
            else None)"
proof (cases "map_of (own_fold lk F) i")
  case None
  with own_fold_present [of lk F i] show ?thesis
    by (simp add: band_status_of_def)
next
  case (Some a)
  with own_fold_present [of lk F i]
  have "i \<noteq> [] \<and> (\<exists>q\<in>set F. map_of q ''DXCC'' = Some i)" by simp
  with Some entry_band_status [OF Some assms] show ?thesis
    by (simp add: band_status_of_def)
qed

lemma filteredQsos_mset:
  assumes "mset Q = mset Q'"
  shows "set (filteredQsos Q mf opf) = set (filteredQsos Q' mf opf)"
proof -
  from assms have "set Q = set Q'" by (rule mset_eq_setD)
  then show ?thesis by (simp add: filteredQsos_def Let_def)
qed

lemma final_status_by_set:
  assumes "b \<in> set BANDS"
  shows "final_status (analyzeQSOs lk qsos mf opf) i b =
           (if \<exists>q\<in>set (filteredQsos qsos mf opf). raises q then Inl TypeError
            else Inr (band_status_of
                        (own_fold lk (filter (\<lambda>q. \<not> inherited_id q) (filteredQsos qsos mf opf)))
                        i b))"
  by (simp add: analyzeQSOs_eq final_status_def)

text \<open>
  Claim C8. If \<open>Q'\<close> is a permutation of \<open>Q\<close>, then under the same pre-aggregation
  filters \<open>analyzeQSOs\<close> raises on both or on neither, and when it returns it gives the
  same final status to every identifier and every band of \<open>BANDS\<close> on both.
\<close>

theorem band_status_order_independent:
  assumes "mset Q = mset Q'" and "b \<in> set BANDS"
  shows "final_status (analyzeQSOs lk Q mf opf) i b
         = final_status (analyzeQSOs lk Q' mf opf) i b"
proof -
  have s: "set (filteredQsos Q mf opf) = set (filteredQsos Q' mf opf)"
    using assms(1) by (rule filteredQsos_mset)
  then have g: "set (filter (\<lambda>q. \<not> inherited_id q) (filteredQsos Q mf opf))
              = set (filter (\<lambda>q. \<not> inherited_id q) (filteredQsos Q' mf opf))"
    by simp
  show ?thesis
    unfolding final_status_by_set [OF assms(2)] band_status_by_set [OF assms(2)] s g ..
qed

theorem band_status_order_independent_witness:
  "mset example_qsos = mset (rev example_qsos) \<and> ''20m'' \<in> set BANDS
   \<and> final_status (analyzeQSOs example_lookup example_qsos ''all'' ''all'') ''291'' ''20m''
     = final_status (analyzeQSOs example_lookup (rev example_qsos) ''all'' ''all'') ''291'' ''20m''
   \<and> final_status (analyzeQSOs example_lookup (rev example_qsos) ''all'' ''all'') ''291'' ''20m''
     = Inr (Some Confirmed)"
proof -
  have h1: "mset example_qsos = mset (rev example_qsos)" by simp
  have h2: "''20m'' \<in> set BANDS" by (simp add: BANDS_def)
  have e: "final_status (analyzeQSOs example_lookup example_qsos ''all'' ''all'') ''291'' ''20m''
           = Inr (Some Confirmed)"
    by code_simp
  note t = band_status_order_independent [OF h1 h2, of example_lookup "''all''" "''all''" "''291''"]
  from t e have "final_status (analyzeQSOs example_lookup (rev example_qsos) ''all'' ''all'')
                   ''291'' ''20m'' = Inr (Some Confirmed)"
    by (simp only:)
  with h1 h2 t show ?thesis by (intro conjI)
qed

section \<open>Name, continent and deleted flag of an entry\<close>

lemma find_first:
  "find P xs = Some x \<Longrightarrow> filter P xs \<noteq> [] \<and> hd (filter P xs) = x"
  by (induction xs) (auto split: if_splits)

lemma own_fold_identity:
  assumes "find (\<lambda>q. map_of q ''DXCC'' = Some i) F = Some q0" and "i \<noteq> []"
  shows "\<exists>a. map_of (own_fold lk F) i = Some a
             \<and> country a = resolve_country lk i q0
             \<and> cont a = resolve_continent lk i q0
             \<and> deleted a = resolve_deleted lk i"
proof -
  let ?rs = "filter (\<lambda>q. map_of q ''DXCC'' = Some i) F"
  from find_first [OF assms(1)] have rs: "?rs \<noteq> []" "hd ?rs = q0" by auto
  then have "map_of (own_fold lk F) i = Some (entry_fold lk i ?rs)"
    by (simp add: own_fold_def analyze_entry [OF assms(2)])
  moreover have "country (entry_fold lk i ?rs) = resolve_country lk i q0"
    "cont (entry_fold lk i ?rs) = resolve_continent lk i q0"
    "deleted (entry_fold lk i ?rs) = resolve_deleted lk i"
    using rs(2) by (simp_all add: entry_fold_def folded_frame new_entry_def)
  ultimately show ?thesis by blast
qed

lemma find_own:
  assumes "find (\<lambda>q. map_of q ''DXCC'' = Some i) F = Some q0" and "i \<notin> set inherited_names"
  shows "find (\<lambda>q. map_of q ''DXCC'' = Some i) (filter (\<lambda>q. \<not> inherited_id q) F) = Some q0"
  using assms by (induction F) (auto simp: inherited_id_def split: if_splits)

lemma entry_identity:
  assumes "analyzeQSOs lk qsos mf opf = Inr d"
    and "find (\<lambda>q. map_of q ''DXCC'' = Some i) (filteredQsos qsos mf opf) = Some q0"
    and "i \<noteq> []"
  shows "i \<notin> set inherited_names \<longrightarrow> (\<exists>a. map_of d i = Some a)"
    and "\<forall>a. map_of d i = Some a \<longrightarrow>
           country a = resolve_country lk i q0
           \<and> cont a = resolve_continent lk i q0
           \<and> deleted a = resolve_deleted lk i"
proof -
  let ?G = "filter (\<lambda>q. \<not> inherited_id q) (filteredQsos qsos mf opf)"
  note d = analyzeQSOs_returned [OF assms(1)]
  have own: "\<exists>a. map_of d i = Some a
             \<and> country a = resolve_country lk i q0
             \<and> cont a = resolve_continent lk i q0
             \<and> deleted a = resolve_deleted lk i" if n: "i \<notin> set inherited_names"
    unfolding d using own_fold_identity [OF find_own [OF assms(2) n] assms(3)] .
  from own show "i \<notin> set inherited_names \<longrightarrow> (\<exists>a. map_of d i = Some a)" by blast
  show "\<forall>a. map_of d i = Some a \<longrightarrow>
           country a = resolve_country lk i q0
           \<and> cont a = resolve_continent lk i q0
           \<and> deleted a = resolve_deleted lk i"
  proof (intro allI impI)
    fix a
    assume a: "map_of d i = Some a"
    then have "map_of (own_fold lk ?G) i = Some a" unfolding d .
    then have "i \<notin> set inherited_names" by (rule entry_not_inherited)
    from own [OF this] a
    show "country a = resolve_country lk i q0
           \<and> cont a = resolve_continent lk i q0
           \<and> deleted a = resolve_deleted lk i"
      by auto
  qed
qed

lemma add_qso_identity:
  assumes "map_of s i = Some x" and "add_qso lk s q = Inr s'"
  shows "\<exists>x'. map_of s' i = Some x'
              \<and> country x' = country x \<and> cont x' = cont x \<and> deleted x' = deleted x"
proof -
  from add_qso_cases [OF assms(2)] show ?thesis
  proof
    assume "s' = s"
    with assms(1) show ?thesis by simp
  next
    assume "s' = add_own lk s q"
    with assms(1) show ?thesis by (auto simp: add_own_map_of fold_into_frame)
  qed
qed

text \<open>
  Claim C10. When \<open>analyzeQSOs\<close> returns, the \<open>country\<close>, \<open>cont\<close> and \<open>deleted\<close> fields
  of an entry are the values resolved from the first folded record that bears the
  identifier, and the entry exists unless the identifier names an inherited property;
  and folding any record into a state that already has the entry leaves these three
  fields as they are, whatever \<open>COUNTRY\<close> or \<open>CONT\<close> the record carries.
\<close>

theorem first_record_fixes_identity:
  assumes "analyzeQSOs lk qsos mf opf = Inr d"
    and "find (\<lambda>q. map_of q ''DXCC'' = Some i) (filteredQsos qsos mf opf) = Some q0"
    and "i \<noteq> []"
  shows "(i \<notin> set inherited_names \<longrightarrow> (\<exists>a. map_of d i = Some a))
       \<and> (\<forall>a. map_of d i = Some a \<longrightarrow>
            country a = resolve_country lk i q0
            \<and> cont a = resolve_continent lk i q0
            \<and> deleted a = resolve_deleted lk i)
       \<and> (\<forall>s q x s'. map_of s i = Some x \<and> add_qso lk s q = Inr s' \<longrightarrow>
            (\<exists>x'. map_of s' i = Some x'
                  \<and> country x' = country x \<and> cont x' = cont x \<and> deleted x' = deleted x))"
  using entry_identity [OF assms] add_qso_identity by blast

theorem first_record_fixes_identity_witness:
  "returned (analyzeQSOs example_lookup example_renamed ''all'' ''all'') \<noteq> None
   \<and> find (\<lambda>q. map_of q ''DXCC'' = Some ''291'') (filteredQsos example_renamed ''all'' ''all'')
     = Some [(''DXCC'', ''291''), (''COUNTRY'', ''USA''), (''CONT'', ''NA'')]
   \<and> ''291'' \<noteq> [] \<and> ''291'' \<notin> set inherited_names
   \<and> map_option country (entry_of (analyzeQSOs example_lookup example_renamed ''all'' ''all'') ''291'')
     = Some ''USA''
   \<and> map_option cont (entry_of (analyzeQSOs example_lookup example_renamed ''all'' ''all'') ''291'')
     = Some ''NA''"
proof -
  let ?r = "analyzeQSOs example_lookup example_renamed ''all'' ''all''"
  let ?q0 = "[(''DXCC'', ''291''), (''COUNTRY'', ''USA''), (''CONT'', ''NA'')]"
  have "returned ?r \<noteq> None" by code_simp
  then obtain d where h0: "?r = Inr d" by (auto simp: returned_def split: sum.splits)
  have h1: "find (\<lambda>q. map_of q ''DXCC'' = Some ''291'') (filteredQsos example_renamed ''all'' ''all'')
              = Some ?q0"
    by code_simp
  have h2: "''291'' \<noteq> []" by simp
  have h3: "''291'' \<notin> set inherited_names" by (simp add: inherited_names_def)
  have r1: "resolve_country example_lookup ''291'' ?q0 = ''USA''" by code_simp
  have r2: "resolve_continent example_lookup ''291'' ?q0 = ''NA''" by code_simp
  from first_record_fixes_identity [OF h0 h1 h2] h3
  obtain a where a: "map_of d ''291'' = Some a"
    "country a = resolve_country example_lookup ''291'' ?q0"
    "cont a = resolve_continent example_lookup ''291'' ?q0"
    by blast
  have w0: "returned ?r \<noteq> None" by (simp add: h0 returned_def)
  have w1: "map_option country (entry_of ?r ''291'') = Some ''USA''"
    by (simp add: h0 entry_of_def a r1)
  have w2: "map_option cont (entry_of ?r ''291'') = Some ''NA''"
    by (simp add: h0 entry_of_def a r2)
  from w0 h1 h2 h3 w1 w2 show ?thesis by (intro conjI)
qed

text \<open>
  Claim C2, amended. When \<open>analyzeQSOs\<close> returns, the continent of an entry whose
  identifier is in the lookup table is the \<open>CONT\<close> field of the first folded record
  bearing the identifier when that field is present and not empty, and the lookup table's
  continent otherwise: the record's field has priority over the table. The entry exists
  unless the identifier names an inherited property.
\<close>

theorem continent_record_first:
  assumes "analyzeQSOs lk qsos mf opf = Inr d"
    and "find (\<lambda>q. map_of q ''DXCC'' = Some i) (filteredQsos qsos mf opf) = Some q0"
    and "i \<noteq> []" and "lk i = Some e"
  shows "(i \<notin> set inherited_names \<longrightarrow> (\<exists>a. map_of d i = Some a))
       \<and> (\<forall>a. map_of d i = Some a \<longrightarrow>
            cont a = (case map_of q0 ''CONT'' of
                        None \<Rightarrow> entity_cont e
                      | Some c \<Rightarrow> if c = [] then entity_cont e else c))"
proof -
  have "resolve_continent lk i q0 =
          (case map_of q0 ''CONT'' of None \<Rightarrow> entity_cont e
           | Some c \<Rightarrow> if c = [] then entity_cont e else c)"
    using assms(4)
    by (auto simp: resolve_continent_def js_or_def truthy_def or_default_def split: option.splits)
  with entry_identity [OF assms(1,2,3)] show ?thesis by auto
qed

theorem continent_record_first_witness:
  "returned (analyzeQSOs example_lookup example_cont_eu ''all'' ''all'') \<noteq> None
   \<and> find (\<lambda>q. map_of q ''DXCC'' = Some ''291'') (filteredQsos example_cont_eu ''all'' ''all'')
     = Some [(''DXCC'', ''291''), (''CONT'', ''EU'')]
   \<and> ''291'' \<noteq> [] \<and> ''291'' \<notin> set inherited_names
   \<and> example_lookup ''291''
     = Some \<lparr> entity_name = ''United States'', entity_cont = ''NA'', entity_deleted = False \<rparr>
   \<and> map_option cont (entry_of (analyzeQSOs example_lookup example_cont_eu ''all'' ''all'') ''291'')
     = Some ''EU''"
proof -
  let ?r = "analyzeQSOs example_lookup example_cont_eu ''all'' ''all''"
  have "returned ?r \<noteq> None" by code_simp
  then obtain d where h0: "?r = Inr d" by (auto simp: returned_def split: sum.splits)
  have h1: "find (\<lambda>q. map_of q ''DXCC'' = Some ''291'') (filteredQsos example_cont_eu ''all'' ''all'')
              = Some [(''DXCC'', ''291''), (''CONT'', ''EU'')]"
    by code_simp
  have h2: "''291'' \<noteq> []" by simp
  have h3: "''291'' \<notin> set inherited_names" by (simp add: inherited_names_def)
  have h4: "example_lookup ''291''
     = Some \<lparr> entity_name = ''United States'', entity_cont = ''NA'', entity_deleted = False \<rparr>"
    by (simp add: example_lookup_def)
  from continent_record_first [OF h0 h1 h2 h4] h3
  obtain a where a: "map_of d ''291'' = Some a" "cont a = ''EU''"
    by auto
  have w0: "returned ?r \<noteq> None" by (simp add: h0 returned_def)
  have w1: "map_option cont (entry_of ?r ''291'') = Some ''EU''"
    by (simp add: h0 entry_of_def a)
  from w0 h1 h2 h3 h4 w1 show ?thesis by (intro conjI)
qed

text \<open>
  The claim as the specification states it, that the lookup table's continent wins over
  the record's \<open>CONT\<close> field, fails: the table gives \<open>NA\<close> for 291, the record says
  \<open>EU\<close>, and the entry's continent is \<open>EU\<close>.
\<close>

theorem continent_lookup_priority_counterexample:
  "map_option entity_cont (example_lookup ''291'') = Some ''NA''
   \<and> map_of (hd example_cont_eu) ''CONT'' = Some ''EU''
   \<and> map_option cont (entry_of (analyzeQSOs example_lookup example_cont_eu ''all'' ''all'') ''291'')
     = Some ''EU''"
  by code_simp

section \<open>Total contacts\<close>

lemma update_absent: "map_of d k = None \<Longrightarrow> AList.update k v d = d @ [(k, v)]"
  by (induction d) (auto split: if_splits)

lemma total_contacts_map_entry:
  "distinct (map fst d) \<Longrightarrow> map_of d k = Some a \<Longrightarrow>
   total_contacts (AList.map_entry k f d) + total_n a = total_contacts d + total_n (f a)"
proof (induction d)
  case Nil
  then show ?case by simp
next
  case (Cons p d)
  show ?case
  proof (cases "fst p = k")
    case True
    with Cons.prems show ?thesis by (cases p) (auto simp: total_contacts_def)
  next
    case False
    with Cons.prems have "map_of d k = Some a" "distinct (map fst d)" by (cases p; auto)+
    from Cons.IH [OF this(2,1)] False show ?thesis
      by (cases p) (auto simp: total_contacts_def)
  qed
qed

lemma add_own_distinct:
  "distinct (map fst d) \<Longrightarrow> distinct (map fst (add_own lk d q))"
  by (auto simp: add_own_def add_entry_def Let_def distinct_update distinct_map_entry split: option.splits)

lemma add_own_total:
  assumes "distinct (map fst d)"
  shows "total_contacts (add_own lk d q)
         = total_contacts d + (if truthy (map_of q ''DXCC'') then 1 else 0)"
proof (cases "truthy (map_of q ''DXCC'')")
  case False
  then show ?thesis by (auto simp: add_own_def add_entry_def truthy_def split: option.splits)
next
  case True
  then obtain k where k: "map_of q ''DXCC'' = Some k" "k \<noteq> []"
    by (auto simp: truthy_def split: option.splits)
  let ?new = "new_entry (resolve_country lk k q) (resolve_continent lk k q) (resolve_deleted lk k)"
  let ?d1 = "if map_of d k = None then AList.update k ?new d else d"
  have eq: "add_own lk d q = AList.map_entry k (fold_into q) ?d1"
    using k by (simp add: add_own_def add_entry_def Let_def)
  have d1: "distinct (map fst ?d1)" using assms by (simp add: distinct_update)
  have "\<exists>a. map_of ?d1 k = Some a \<and> total_contacts ?d1 = total_contacts d"
  proof (cases "map_of d k")
    case None
    then have "map_of (AList.update k ?new d) k = Some ?new" by (simp add: update_conv')
    moreover have "total_contacts (AList.update k ?new d) = total_contacts d"
      using None by (simp add: update_absent total_contacts_def new_entry_def)
    ultimately show ?thesis using None by simp
  next
    case (Some a)
    then show ?thesis by simp
  qed
  then obtain a where a: "map_of ?d1 k = Some a" "total_contacts ?d1 = total_contacts d"
    by blast
  from total_contacts_map_entry [OF d1 a(1), of "fold_into q"] a(2) True
  show ?thesis unfolding eq by (simp add: fold_into_frame)
qed

lemma fold_total:
  "distinct (map fst (foldl (add_own lk) [] qs))
   \<and> total_contacts (foldl (add_own lk) [] qs)
     = length (filter (\<lambda>q. truthy (map_of q ''DXCC'')) qs)"
proof (induction qs rule: rev_induct)
  case Nil
  show ?case by (simp add: total_contacts_def)
next
  case (snoc q qs)
  then show ?case by (simp add: add_own_distinct add_own_total)
qed

lemma total_contacts_returned:
  assumes "analyzeQSOs lk qsos ''all'' ''all'' = Inr d"
  shows "total_contacts d = length (filter (\<lambda>q. keyed q \<and> \<not> inherited_id q) qsos)"
proof -
  have f: "filteredQsos qsos ''all'' ''all'' = qsos" by (simp add: filteredQsos_def)
  have "filter (\<lambda>q. truthy (map_of q ''DXCC'')) (filter (\<lambda>q. \<not> inherited_id q) qsos)
        = filter (\<lambda>q. keyed q \<and> \<not> inherited_id q) qsos"
    by (induction qsos) (auto simp: keyed_def)
  with fold_total [of lk "filter (\<lambda>q. \<not> inherited_id q) qsos"]
    analyzeQSOs_returned [OF assms]
  show ?thesis by (simp add: f own_fold_def)
qed

text \<open>
  Claim C4. With no pre-aggregation filter active, the sum of \<open>total\<close> over the entries
  that \<open>analyzeQSOs\<close> produces should be the number of input records whose \<open>DXCC\<close> field
  is present and not empty. The source misses an identifier that names an inherited
  property: on the one record with \<open>DXCC\<close> \<open>constructor\<close> the call returns no entry, so
  the sum is 0 where one record is keyed, and on the same record with the band \<open>20m\<close> the
  call raises \<open>TypeError\<close>. For records with other identifiers the sum is the number of
  keyed records, by \<open>total_contacts_returned\<close>.
\<close>

theorem total_misses_inherited_name:
  "analyzeQSOs example_lookup example_inherited ''all'' ''all'' = Inr []
   \<and> total_contacts [] = 0
   \<and> length (filter keyed example_inherited) = 1
   \<and> analyzeQSOs example_lookup example_inherited_band ''all'' ''all'' = Inl TypeError"
  by code_simp

section \<open>The band status shown under a platform filter\<close>







section \<open>Records that are dropped\<close>

lemma store_field_nonempty: "store_field q m \<noteq> []"
  by (cases m) (simp add: store_field_def)

lemma foldl_store_field_nonempty: "q \<noteq> [] \<Longrightarrow> foldl store_field q ms \<noteq> []"
  by (induction ms arbitrary: q) (simp_all add: store_field_nonempty)

lemma parse_record_empty: "parse_record c = [] \<longleftrightarrow> exec_all c = []"
proof (cases "exec_all c")
  case Nil
  then show ?thesis by (simp add: parse_record_def)
next
  case (Cons m ms)
  then show ?thesis
    by (simp add: parse_record_def foldl_store_field_nonempty store_field_nonempty)
qed

lemma regex_exec_no_bracket: "CHR ''<'' \<notin> set s \<Longrightarrow> regex_exec s = None"
  by (induction s) (auto simp: match_tag_def)

lemma trim_empty_spaces:
  assumes "trim s = []"
  shows "\<forall>x\<in>set s. is_space x"
proof -
  from assms have "dropWhile is_space (rev (dropWhile is_space s)) = []"
    by (simp add: trim_def)
  then have "\<forall>x\<in>set (dropWhile is_space s). is_space x"
    by (simp add: dropWhile_eq_Nil_conv)
  then have "dropWhile is_space s = []"
    by (metis hd_dropWhile hd_in_set)
  then show ?thesis by (simp add: dropWhile_eq_Nil_conv)
qed

lemma blank_chunk_no_tags:
  assumes "trim c = []"
  shows "exec_all c = []"
proof -
  have "\<not> is_space (CHR ''<'')" by (simp add: is_space_def)
  with trim_empty_spaces [OF assms] have "CHR ''<'' \<notin> set c" by blast
  then show ?thesis by (simp add: exec_all.simps regex_exec_no_bracket)
qed

lemma record_of_chunk_eq:
  "record_of_chunk c = (if exec_all c \<noteq> [] then [parse_record c] else [])"
  using blank_chunk_no_tags [of c] parse_record_empty [of c]
  by (auto simp: record_of_chunk_def Let_def)

lemma parseADIF_chunks:
  "parseADIF content = map parse_record (filter (\<lambda>c. exec_all c \<noteq> []) (split_eor [] content))"
proof -
  have "concat (map record_of_chunk cs) = map parse_record (filter (\<lambda>c. exec_all c \<noteq> []) cs)" for cs
    by (induction cs) (simp_all add: record_of_chunk_eq)
  then show ?thesis by (simp add: parseADIF_def)
qed

lemma add_qso_keyless: "\<not> truthy (map_of q ''DXCC'') \<Longrightarrow> add_qso lk d q = Inr d"
  by (auto simp: add_qso_def truthy_def split: option.splits)

lemma filteredQsos_filter:
  "filteredQsos qsos mf opf =
     filter (\<lambda>qso. (mf = ''all'' \<or> categorizeMode (map_of qso ''MODE'') = mf)
                  \<and> (opf = ''all'' \<or>
                       (let call = or_default (js_or (map_of qso ''STATION_CALLSIGN'')
                                                      (map_of qso ''OPERATOR'')) []
                        in upper_in_range call \<and> toUpperCase call = opf))) qsos"
  by (auto simp: filteredQsos_def Let_def intro: filter_cong)

lemma fold_qsos_keyless:
  assumes "\<not> truthy (map_of q ''DXCC'')"
  shows "fold_qsos lk d (xs @ q # ys) = fold_qsos lk d (xs @ ys)"
  using assms by (simp add: fold_qsos_append add_qso_keyless split: sum.splits)

lemma analyzeQSOs_keyless:
  assumes "\<not> truthy (map_of q ''DXCC'')"
  shows "analyzeQSOs lk (xs @ q # ys) mf opf = analyzeQSOs lk (xs @ ys) mf opf"
  using fold_qsos_keyless [OF assms]
  by (simp add: analyzeQSOs_def filteredQsos_filter)

text \<open>
  Claim C9. The output of \<open>parseADIF\<close> is, in order, the parsed record of each piece
  between end-of-record markers that yields at least one field: a piece that yields no
  field contributes no record, the output holds no empty record, and the parser is a
  total function with no error result. A record whose \<open>DXCC\<close> field is absent or empty
  leaves the state of the fold exactly as it was and raises nothing, so \<open>analyzeQSOs\<close>
  gives the same result with and without it.
\<close>

theorem empty_and_keyless_dropped:
  "parseADIF content = map parse_record (filter (\<lambda>c. exec_all c \<noteq> []) (split_eor [] content))
   \<and> [] \<notin> set (parseADIF content)
   \<and> (\<not> truthy (map_of q ''DXCC'') \<longrightarrow>
        add_qso lk d q = Inr d
        \<and> analyzeQSOs lk (xs @ q # ys) mf opf = analyzeQSOs lk (xs @ ys) mf opf)"
proof -
  have "[] \<notin> set (parseADIF content)"
    using parse_record_empty by (fastforce simp: parseADIF_chunks)
  then show ?thesis
    using parseADIF_chunks add_qso_keyless analyzeQSOs_keyless by blast
qed

theorem empty_and_keyless_dropped_witness:
  "parseADIF ''header text <eoh> <eor>  <CALL:4>W1AW <eor> junk <BAND> <eor>'' = [ [(''CALL'', ''W1AW'')] ]
   \<and> \<not> truthy (map_of [(''CALL'', ''W1AW'')] ''DXCC'')
   \<and> analyzeQSOs example_lookup (example_qsos @ [(''CALL'', ''W1AW'')] # example_qsos) ''all'' ''all''
     = analyzeQSOs example_lookup (example_qsos @ example_qsos) ''all'' ''all''"
proof -
  let ?c = "''header text <eoh> <eor>  <CALL:4>W1AW <eor> junk <BAND> <eor>''"
  have h: "\<not> truthy (map_of [(''CALL'', ''W1AW'')] ''DXCC'')" by (simp add: truthy_def)
  have e: "map parse_record (filter (\<lambda>c. exec_all c \<noteq> []) (split_eor [] ?c)) = [ [(''CALL'', ''W1AW'')] ]"
    by code_simp
  note t = empty_and_keyless_dropped
    [of ?c "[(''CALL'', ''W1AW'')]" example_lookup "[]" example_qsos example_qsos "''all''" "''all''"]
  from t have "parseADIF ?c = map parse_record (filter (\<lambda>c. exec_all c \<noteq> []) (split_eor [] ?c))"
    by (rule conjunct1)
  with e have a: "parseADIF ?c = [ [(''CALL'', ''W1AW'')] ]" by (simp only:)
  from t h have b: "analyzeQSOs example_lookup (example_qsos @ [(''CALL'', ''W1AW'')] # example_qsos) ''all'' ''all''
     = analyzeQSOs example_lookup (example_qsos @ example_qsos) ''all'' ''all''"
    by blast
  from a h b show ?thesis by (intro conjI)
qed

section \<open>Stored field values\<close>

lemma store_field_pair:
  "store_field q (name, digits, raw) = AList.update (toUpperCase name) (field_value digits raw) q"
  by (simp add: store_field_def)

lemma foldl_store_field_source:
  "map_of (foldl store_field q ms) f = Some v \<Longrightarrow>
   map_of q f = Some v
   \<or> (\<exists>name digits raw. (name, digits, raw) \<in> set ms \<and> f = toUpperCase name
          \<and> v = field_value digits raw)"
proof (induction ms rule: rev_induct)
  case Nil
  then show ?case by simp
next
  case (snoc m ms)
  obtain name digits raw where m: "m = (name, digits, raw)" by (cases m)
  show ?case
  proof (cases "f = toUpperCase name")
    case True
    with snoc.prems m have "v = field_value digits raw"
      by (simp add: store_field_pair update_conv')
    with True m show ?thesis by auto
  next
    case False
    with snoc.prems m have "map_of (foldl store_field q ms) f = Some v"
      by (simp add: store_field_pair update_conv')
    from snoc.IH [OF this] show ?thesis by auto
  qed
qed

lemma set_trim: "set (trim s) \<subseteq> set s"
proof -
  have d: "set (dropWhile P xs) \<subseteq> set xs" for P and xs :: string
    by (auto dest: set_dropWhileD)
  have "set (trim s) = set (dropWhile is_space (rev (dropWhile is_space s)))"
    by (simp add: trim_def)
  also have "\<dots> \<subseteq> set (rev (dropWhile is_space s))" by (rule d)
  also have "\<dots> = set (dropWhile is_space s)" by simp
  also have "\<dots> \<subseteq> set s" by (rule d)
  finally show ?thesis .
qed

lemma length_trim: "length (trim s) \<le> length s"
proof -
  have "length (trim s) = length (dropWhile is_space (rev (dropWhile is_space s)))"
    by (simp add: trim_def)
  also have "\<dots> \<le> length (rev (dropWhile is_space s))" by (rule length_dropWhile_le)
  also have "\<dots> = length (dropWhile is_space s)" by simp
  also have "\<dots> \<le> length s" by (rule length_dropWhile_le)
  finally show ?thesis .
qed

lemma match_tag_raw:
  "match_tag s = Some ((name, digits, raw), rest) \<Longrightarrow> CHR ''<'' \<notin> set raw"
  by (auto simp: match_tag_def Let_def split: if_splits option.splits dest: set_takeWhileD)

lemma regex_exec_raw:
  "regex_exec s = Some ((name, digits, raw), rest) \<Longrightarrow> CHR ''<'' \<notin> set raw"
  by (induction s) (auto split: option.splits dest: match_tag_raw)

lemma exec_all_raw:
  "(name, digits, raw) \<in> set (exec_all s) \<Longrightarrow> CHR ''<'' \<notin> set raw"
proof (induction s rule: exec_all.induct)
  case (1 s)
  show ?case
  proof (cases "regex_exec s")
    case None
    with "1.prems" show ?thesis by (simp add: exec_all.simps)
  next
    case (Some r)
    obtain m rest where r: "r = (m, rest)" by (cases r)
    from "1.prems" Some r have "(name, digits, raw) = m \<or> (name, digits, raw) \<in> set (exec_all rest)"
      by (simp add: exec_all.simps [of s])
    then show ?thesis
    proof
      assume "(name, digits, raw) = m"
      with Some r show ?thesis by (auto dest: regex_exec_raw)
    next
      assume "(name, digits, raw) \<in> set (exec_all rest)"
      with "1.IH" Some r show ?thesis by auto
    qed
  qed
qed

lemma field_value_bound:
  "0 < parseInt digits \<Longrightarrow> length (field_value digits raw) \<le> parseInt digits"
proof -
  assume p: "0 < parseInt digits"
  show ?thesis
  proof (cases "parseInt digits < length raw")
    case True
    have "length (trim (take (parseInt digits) raw)) \<le> length (take (parseInt digits) raw)"
      by (rule length_trim)
    with True p show ?thesis by (simp add: field_value_def Let_def)
  next
    case False
    have "length (trim raw) \<le> length raw" by (rule length_trim)
    with False p show ?thesis by (simp add: field_value_def Let_def)
  qed
qed

lemma field_value_no_bracket:
  "CHR ''<'' \<notin> set raw \<Longrightarrow> CHR ''<'' \<notin> set (field_value digits raw)"
  using set_trim [of raw] set_trim [of "take (parseInt digits) raw"]
  by (auto simp: field_value_def Let_def dest: in_set_takeD)

text \<open>
  Claim C6, amended. Every value stored in a record by \<open>parseADIF\<close> comes from a tag of
  one piece of the input: it is the raw capture of that tag, cut to the declared length
  when that length is positive and the capture is longer, then trimmed. So a value under
  a positive declared length is no longer than that length, and no value holds a
  \<open><\<close>. Parsing \<open><MODE:3>FT8<BAND:3>20m<DXCC:3>291\<close> gives \<open>MODE\<close> exactly \<open>FT8\<close>.
\<close>

theorem stored_value_truncated_and_trimmed:
  "(r \<in> set (parseADIF content) \<and> map_of r f = Some v \<longrightarrow>
      (\<exists>c name digits raw.
          c \<in> set (split_eor [] content) \<and> (name, digits, raw) \<in> set (exec_all c)
          \<and> f = toUpperCase name
          \<and> v = trim (if 0 < parseInt digits \<and> parseInt digits < length raw
                       then take (parseInt digits) raw else raw)
          \<and> (0 < parseInt digits \<longrightarrow> length v \<le> parseInt digits)
          \<and> CHR ''<'' \<notin> set v))
   \<and> parseADIF ''<MODE:3>FT8<BAND:3>20m<DXCC:3>291<eor>''
       = [ [(''MODE'', ''FT8''), (''BAND'', ''20m''), (''DXCC'', ''291'')] ]"
proof (intro conjI impI)
  assume a: "r \<in> set (parseADIF content) \<and> map_of r f = Some v"
  then obtain c where c: "c \<in> set (split_eor [] content)" "r = parse_record c"
    by (auto simp: parseADIF_chunks)
  with a have "map_of (foldl store_field [] (exec_all c)) f = Some v"
    by (simp add: parse_record_def)
  from foldl_store_field_source [OF this]
  obtain name digits raw where m: "(name, digits, raw) \<in> set (exec_all c)"
    "f = toUpperCase name" "v = field_value digits raw"
    by auto
  have v: "v = trim (if 0 < parseInt digits \<and> parseInt digits < length raw
                     then take (parseInt digits) raw else raw)"
    unfolding m(3) by (simp add: field_value_def Let_def)
  have b: "0 < parseInt digits \<longrightarrow> length v \<le> parseInt digits"
    unfolding m(3) by (simp add: field_value_bound)
  have n: "CHR ''<'' \<notin> set v"
    unfolding m(3) using exec_all_raw [OF m(1)] by (rule field_value_no_bracket)
  show "\<exists>c name digits raw.
          c \<in> set (split_eor [] content) \<and> (name, digits, raw) \<in> set (exec_all c)
          \<and> f = toUpperCase name
          \<and> v = trim (if 0 < parseInt digits \<and> parseInt digits < length raw
                       then take (parseInt digits) raw else raw)
          \<and> (0 < parseInt digits \<longrightarrow> length v \<le> parseInt digits)
          \<and> CHR ''<'' \<notin> set v"
    apply (rule exI [of _ c])
    apply (rule exI [of _ name])
    apply (rule exI [of _ digits])
    apply (rule exI [of _ raw])
    apply (intro conjI)
         apply (rule c(1))
        apply (rule m(1))
       apply (rule m(2))
      apply (rule v)
     apply (rule b)
    apply (rule n)
    done
next
  show "parseADIF ''<MODE:3>FT8<BAND:3>20m<DXCC:3>291<eor>''
       = [ [(''MODE'', ''FT8''), (''BAND'', ''20m''), (''DXCC'', ''291'')] ]"
    by code_simp
qed

theorem stored_value_truncated_and_trimmed_witness:
  "[(''MODE'', ''FT8''), (''DXCC'', ''291'')] \<in> set (parseADIF ''<MODE:3>FT8BAND:3>20m<DXCC:3>291<eor>'')
   \<and> map_of [(''MODE'', ''FT8''), (''DXCC'', ''291'')] ''MODE'' = Some ''FT8''
   \<and> exec_all ''<MODE:3>FT8BAND:3>20m<DXCC:3>291''
       = [(''MODE'', ''3'', ''FT8BAND:3>20m''), (''DXCC'', ''3'', ''291'')]
   \<and> (\<exists>c name digits raw.
          c \<in> set (split_eor [] ''<MODE:3>FT8BAND:3>20m<DXCC:3>291<eor>'')
          \<and> (name, digits, raw) \<in> set (exec_all c)
          \<and> ''MODE'' = toUpperCase name
          \<and> ''FT8'' = trim (if 0 < parseInt digits \<and> parseInt digits < length raw
                             then take (parseInt digits) raw else raw))"
proof -
  let ?c = "''<MODE:3>FT8BAND:3>20m<DXCC:3>291<eor>''"
  let ?r = "[(''MODE'', ''FT8''), (''DXCC'', ''291'')]"
  have h1: "?r \<in> set (parseADIF ?c)" by code_simp
  have h2: "map_of ?r ''MODE'' = Some ''FT8''" by simp
  have e: "exec_all ''<MODE:3>FT8BAND:3>20m<DXCC:3>291''
       = [(''MODE'', ''3'', ''FT8BAND:3>20m''), (''DXCC'', ''3'', ''291'')]"
    by code_simp
  from stored_value_truncated_and_trimmed [of ?r ?c "''MODE''" "''FT8''"] h1 h2
  have "\<exists>c name digits raw.
          c \<in> set (split_eor [] ?c) \<and> (name, digits, raw) \<in> set (exec_all c)
          \<and> ''MODE'' = toUpperCase name
          \<and> ''FT8'' = trim (if 0 < parseInt digits \<and> parseInt digits < length raw
                             then take (parseInt digits) raw else raw)"
    by blast
  with h1 h2 e show ?thesis by (intro conjI)
qed

text \<open>
  The claim as the specification states it, truncation whenever the capture is longer
  than the declared length, fails for a declared length of 0: the source truncates only
  under \<open>declaredLength > 0\<close>, and \<open><NOTES:0>abc\<close> stores \<open>abc\<close>.
\<close>

theorem zero_length_not_truncated_counterexample:
  "parseADIF ''<NOTES:0>abc<eor>'' = [ [(''NOTES'', ''abc'')] ]
   \<and> split_eor [] ''<NOTES:0>abc<eor>'' = [''<NOTES:0>abc'', [] ]
   \<and> exec_all ''<NOTES:0>abc'' = [(''NOTES'', ''0'', ''abc'')]
   \<and> exec_all [] = []
   \<and> parseInt ''0'' < length ''abc''
   \<and> trim (take (parseInt ''0'') ''abc'') \<noteq> ''abc''"
  by code_simp

section \<open>The status filter\<close>

lemma filteredData_subset: "set (filteredData (Some d) fs) \<subseteq> set d"
  by (auto simp: filteredData_def Let_def split: option.splits)

lemma filteredData_band:
  assumes "filterBand fs \<noteq> ''all''" and "(i, a) \<in> set (filteredData (Some d) fs)"
  shows "map_of (bands a) (filterBand fs) = Some Worked
         \<or> map_of (bands a) (filterBand fs) = Some Confirmed"
  using assms by (auto simp: filteredData_def Let_def split: option.splits if_splits)

lemma filteredData_other_status:
  assumes "filterStatus fs \<noteq> ''confirmed''" and "filterStatus fs \<noteq> ''worked''"
  shows "filteredData (Some d) fs = filteredData (Some d) (fs\<lparr> filterStatus := ''all'' \<rparr>)"
  using assms by (simp add: filteredData_def Let_def split: option.splits)

text \<open>
  Claim C3, amended. \<open>filteredData\<close> has the status modes \<open>'confirmed'\<close> and
  \<open>'worked'\<close>; any other status value restricts nothing. Whatever the status value, its
  result holds only entries of the aggregate set, and with a band filter only entries
  whose status on that band is \<open>'W'\<close> or \<open>'C'\<close>: an entity absent from the aggregate
  set, or one whose status on the selected band is \<open>null\<close>, is never in the result.
\<close>

theorem filteredData_only_worked_entries:
  "set (filteredData (Some d) fs) \<subseteq> set d
   \<and> (filterBand fs \<noteq> ''all'' \<longrightarrow>
        (\<forall>(i, a) \<in> set (filteredData (Some d) fs).
           map_of (bands a) (filterBand fs) = Some Worked
           \<or> map_of (bands a) (filterBand fs) = Some Confirmed))
   \<and> (filterStatus fs \<noteq> ''confirmed'' \<and> filterStatus fs \<noteq> ''worked'' \<longrightarrow>
        filteredData (Some d) fs = filteredData (Some d) (fs\<lparr> filterStatus := ''all'' \<rparr>))"
  using filteredData_subset [of d fs] filteredData_band [of fs _ _ d]
    filteredData_other_status [of fs d]
  by blast

theorem filteredData_only_worked_entries_witness:
  "filterBand example_filter \<noteq> ''all''
   \<and> filterStatus example_filter \<noteq> ''confirmed'' \<and> filterStatus example_filter \<noteq> ''worked''
   \<and> map fst (filteredData (returned (analyzeQSOs example_lookup example_qsos ''all'' ''all''))
                 example_filter) = [''5'']
   \<and> filteredData (returned (analyzeQSOs example_lookup example_qsos ''all'' ''all'')) example_filter
     = filteredData (returned (analyzeQSOs example_lookup example_qsos ''all'' ''all''))
         (example_filter\<lparr> filterStatus := ''all'' \<rparr>)"
proof -
  let ?r = "analyzeQSOs example_lookup example_qsos ''all'' ''all''"
  have "returned ?r \<noteq> None" by code_simp
  then obtain d where r: "returned ?r = Some d" by blast
  have h1: "filterBand example_filter \<noteq> ''all''" by (simp add: example_filter_def)
  have h2: "filterStatus example_filter \<noteq> ''confirmed''" by (simp add: example_filter_def)
  have h3: "filterStatus example_filter \<noteq> ''worked''" by (simp add: example_filter_def)
  have e: "map fst (filteredData (returned ?r) example_filter) = [''5'']" by code_simp
  from filteredData_only_worked_entries [of d example_filter] h2 h3
  have "filteredData (Some d) example_filter
        = filteredData (Some d) (example_filter\<lparr> filterStatus := ''all'' \<rparr>)"
    by blast
  then have "filteredData (returned ?r) example_filter
        = filteredData (returned ?r) (example_filter\<lparr> filterStatus := ''all'' \<rparr>)"
    unfolding r .
  with h1 h2 h3 e show ?thesis by (intro conjI)
qed

text \<open>
  The claim as the specification states it fails on the example log: with the band filter
  \<open>40m\<close> and a status value standing for Not Worked, the result is entity 5 alone.
  Entity 291, whose status on \<open>40m\<close> is \<open>null\<close>, is not in it, and neither is entity 1,
  which the lookup table holds as not deleted and the aggregate set lacks.
\<close>

theorem not_worked_mode_counterexample:
  "map fst (filteredData (returned (analyzeQSOs example_lookup example_qsos ''all'' ''all''))
              \<lparr> searchTerm = [], filterStatus = ''notworked'', filterContinent = ''all'',
                filterConfirmation = None, filterBand = ''40m'' \<rparr>) = [''5'']
   \<and> final_status (analyzeQSOs example_lookup example_qsos ''all'' ''all'') ''291'' ''40m''
     = Inr (Some Null)
   \<and> final_status (analyzeQSOs example_lookup example_qsos ''all'' ''all'') ''5'' ''40m''
     = Inr (Some Worked)
   \<and> map_option entity_deleted (example_lookup ''1'') = Some False
   \<and> returned (analyzeQSOs example_lookup example_qsos ''all'' ''all'') \<noteq> None
   \<and> entry_of (analyzeQSOs example_lookup example_qsos ''all'' ''all'') ''1'' = None"
  by code_simp

end
